theory Spec2Isabelle
  imports Complex_Main
begin

section \<open>Page-enhancement script of the site: a shallow embedding\<close>

text \<open>
  The script exists in two versions, \<^verbatim>\<open>assets/js/site.js\<close> (version 1) and a second
  file headed "v2" (version 2). Both have the same functions; only the event wiring of the
  mobile menu differs. The functions are translated from version 1; the touch listeners,
  the click guard and the timers are translated from version 2, which alone has them; and
  the last section of the definitions translates every other function once more from the
  text of version 2, under the suffix \<^verbatim>\<open>_v2\<close>.

  Conventions of the model:
  \<^item> pixel offsets (scroll positions, rectangle tops) are whole numbers, type \<open>int\<close>;
    the height of the top bar is a rational, because the source rounds it up;
  \<^item> a JavaScript string is a list of 8-bit characters read as the code units
    U+0000 to U+00FF;
  \<^item> an attribute is a \<open>string option\<close>, \<open>None\<close> when the attribute is absent
    (\<^verbatim>\<open>getAttribute\<close> returns \<^verbatim>\<open>null\<close>);
  \<^item> the browser is a state record; every handler takes the state and returns the new one;
  \<^item> in a document tree every element has an identity, which stands for the object
    reference the script holds.
\<close>

subsection \<open>Numbers to strings\<close>

text \<open>The conversion a template literal applies to an integral number.\<close>

function show_nat :: "nat \<Rightarrow> string" where
  "show_nat n =
     (if n < 10 then [char_of (48 + n)]
      else show_nat (n div 10) @ [char_of (48 + n mod 10)])"
  by pat_completeness auto
termination
  by (relation "measure id") auto

definition num_to_string :: "int \<Rightarrow> string" where
  "num_to_string i = (if i < 0 then CHR ''-'' # show_nat (nat (- i)) else show_nat (nat i))"

text \<open>\<^verbatim>\<open>a || b\<close> on numbers: \<open>0\<close> is the falsy number of the model.\<close>

definition num_or :: "int \<Rightarrow> int \<Rightarrow> int" where
  "num_or a b = (if a \<noteq> 0 then a else b)"

subsection \<open>The page state the menu and the scroll lock touch\<close>

text \<open>
  The elements a focus can rest on: the toggle button, the drawer, the scrim, or any
  other element of the page (numbered).
\<close>

datatype elem = Btn | Drawer | Scrim | Other nat

record page =
  win_scrollY :: int                    \<comment> \<open>\<^verbatim>\<open>window.scrollY\<close>, the page scroll position\<close>
  win_scrollMax :: int                  \<comment> \<open>the greatest offset the page can be scrolled to\<close>
  html_scrollTop :: int                 \<comment> \<open>\<^verbatim>\<open>document.documentElement.scrollTop\<close>\<close>
  html_style :: "string \<rightharpoonup> string"     \<comment> \<open>the declarations of \<^verbatim>\<open>document.documentElement.style\<close>\<close>
  body_style :: "string \<rightharpoonup> string"     \<comment> \<open>the declarations of \<^verbatim>\<open>document.body.style\<close>\<close>
  css_parse :: "string \<Rightarrow> string \<Rightarrow> string option"
                                        \<comment> \<open>the browser's parser of a property value\<close>
  lock_y :: int                         \<comment> \<open>\<^verbatim>\<open>scrollLock._y\<close>\<close>
  activeElement :: "elem option"        \<comment> \<open>\<^verbatim>\<open>document.activeElement\<close>\<close>
  can_focus :: "elem \<Rightarrow> bool"          \<comment> \<open>whether \<^verbatim>\<open>el.focus()\<close> moves the focus to \<open>el\<close>\<close>
  drawer_data_open :: "string option"   \<comment> \<open>attribute \<^verbatim>\<open>data-open\<close> of the drawer\<close>
  scrim_data_open :: "string option"    \<comment> \<open>attribute \<^verbatim>\<open>data-open\<close> of the scrim\<close>
  btn_aria_expanded :: "string option"  \<comment> \<open>attribute \<^verbatim>\<open>aria-expanded\<close> of the toggle\<close>
  lastFocus :: "elem option"            \<comment> \<open>the closure variable \<^verbatim>\<open>lastFocus\<close>\<close>
  ignoreClick :: bool                   \<comment> \<open>the closure variable \<^verbatim>\<open>ignoreClick\<close> (version 2)\<close>
  now :: nat                            \<comment> \<open>the clock, in milliseconds\<close>
  timers :: "nat list"                  \<comment> \<open>due times of the pending \<^verbatim>\<open>setTimeout\<close> callbacks\<close>

text \<open>
  \<^verbatim>\<open>safeFocus(el)\<close>: nothing for \<^verbatim>\<open>null\<close>; otherwise \<^verbatim>\<open>el.focus\<close> is tried and
  a failure is swallowed.
\<close>

definition safeFocus :: "elem option \<Rightarrow> page \<Rightarrow> page" where
  "safeFocus el s =
     (case el of
        None \<Rightarrow> s
      | Some e \<Rightarrow> if can_focus s e then s\<lparr>activeElement := Some e\<rparr> else s)"

text \<open>
  \<^verbatim>\<open>window.scrollTo(0, y)\<close>: the page moves to the offset nearest to \<open>y\<close> that it can be
  scrolled to, between \<open>0\<close> and the greatest offset.
\<close>

definition window_scrollTo :: "int \<Rightarrow> page \<Rightarrow> page" where
  "window_scrollTo y s = s\<lparr>win_scrollY := max 0 (min y (win_scrollMax s))\<rparr>"

text \<open>
  \<^verbatim>\<open>el.style.prop = v\<close> on the declarations \<open>st\<close> of an element: the empty string
  removes the declaration; a text the parser refuses for the property is dropped and the
  declaration stays as it was; any other text is stored as the parser writes it back.
  What the parser does with a text is the browser's business, so it is a parameter.
\<close>

definition style_set ::
  "(string \<Rightarrow> string \<Rightarrow> string option) \<Rightarrow> string \<Rightarrow> string \<Rightarrow> (string \<rightharpoonup> string) \<Rightarrow> (string \<rightharpoonup> string)" where
  "style_set parse prop v st =
     (if v = [] then st(prop := None)
      else case parse prop v of None \<Rightarrow> st | Some w \<Rightarrow> st(prop \<mapsto> w))"

definition set_body_style :: "string \<Rightarrow> string \<Rightarrow> page \<Rightarrow> page" where
  "set_body_style prop v s = s\<lparr>body_style := style_set (css_parse s) prop v (body_style s)\<rparr>"

definition set_html_style :: "string \<Rightarrow> string \<Rightarrow> page \<Rightarrow> page" where
  "set_html_style prop v s = s\<lparr>html_style := style_set (css_parse s) prop v (html_style s)\<rparr>"

subsection \<open>\<^verbatim>\<open>scrollLock\<close>\<close>

definition scrollLock_lock :: "page \<Rightarrow> page" where
  "scrollLock_lock s =
     (let y = num_or (num_or (win_scrollY s) (html_scrollTop s)) 0;
          s0 = s\<lparr>lock_y := y\<rparr>;
          s1 = set_html_style ''scrollBehavior'' ''auto'' s0;
          s2 = set_body_style ''position'' ''fixed'' s1;
          s3 = set_body_style ''top'' (''-'' @ num_to_string y @ ''px'') s2;
          s4 = set_body_style ''left'' ''0'' s3;
          s5 = set_body_style ''right'' ''0'' s4
      in set_body_style ''width'' ''100%'' s5)"

definition scrollLock_unlock :: "page \<Rightarrow> page" where
  "scrollLock_unlock s =
     (let y = num_or (lock_y s) 0;
          s1 = set_body_style ''position'' '''' s;
          s2 = set_body_style ''top'' '''' s1;
          s3 = set_body_style ''left'' '''' s2;
          s4 = set_body_style ''right'' '''' s3;
          s5 = set_body_style ''width'' '''' s4;
          s6 = window_scrollTo y s5;
          s7 = s6\<lparr>lock_y := 0\<rparr>
      in set_html_style ''scrollBehavior'' '''' s7)"

text \<open>The properties of the body style that the lock writes.\<close>

definition locked_props :: "string list" where
  "locked_props = [''position'', ''top'', ''left'', ''right'', ''width'']"

subsection \<open>The mobile menu: \<^verbatim>\<open>isOpen\<close>, \<^verbatim>\<open>setOpen\<close>, \<^verbatim>\<open>toggle\<close>\<close>

text \<open>
  \<^verbatim>\<open>initMobileMenu\<close> returns at once unless the toggle, the drawer and the scrim all
  exist; the functions below are the closures it defines when they do. Their text is the
  same in both versions.
\<close>

definition isOpen :: "page \<Rightarrow> bool" where
  "isOpen s = (drawer_data_open s = Some ''true'')"

definition bool_attr :: "bool \<Rightarrow> string" where
  "bool_attr b = (if b then ''true'' else ''false'')"

definition setOpen :: "bool \<Rightarrow> page \<Rightarrow> page" where
  "setOpen b s =
     (let s1 = s\<lparr>drawer_data_open := Some (bool_attr b),
                 scrim_data_open := Some (bool_attr b),
                 btn_aria_expanded := Some (bool_attr b)\<rparr>
      in if b then
           safeFocus (Some Drawer) (scrollLock_lock (s1\<lparr>lastFocus := activeElement s1\<rparr>))
         else
           (let s2 = scrollLock_unlock s1
            in safeFocus (case lastFocus s2 of Some e \<Rightarrow> Some e | None \<Rightarrow> Some Btn) s2))"

definition toggle :: "page \<Rightarrow> page" where
  "toggle s = setOpen (\<not> isOpen s) s"

text \<open>
  A parser for the samples: it writes \<^verbatim>\<open>0\<close> back as \<^verbatim>\<open>0px\<close>, refuses a text that
  starts with two minus signs, and stores any other text as it is.
\<close>

definition css_sample :: "string \<Rightarrow> string \<Rightarrow> string option" where
  "css_sample prop v =
     (if v = ''0'' then Some ''0px'' else if take 2 v = ''--'' then None else Some v)"

text \<open>
  A sample page: scrolled to 120 of 2000, nothing locked, focus on the toggle; and the same
  page pulled 5 pixels beyond its top, as a touch browser reports while it bounces.
\<close>

definition page0 :: page where
  "page0 = \<lparr>win_scrollY = 120, win_scrollMax = 2000, html_scrollTop = 120,
            html_style = Map.empty, body_style = Map.empty, css_parse = css_sample,
            lock_y = 0, activeElement = Some Btn,
            can_focus = (\<lambda>_. True), drawer_data_open = None, scrim_data_open = None,
            btn_aria_expanded = Some ''false'', lastFocus = None, ignoreClick = False,
            now = 0, timers = []\<rparr>"

definition page_overscrolled :: page where
  "page_overscrolled = page0\<lparr>win_scrollY := - 5, html_scrollTop := - 5\<rparr>"

subsection \<open>Strings: lower case, splitting on white space, joining, insertion-ordered sets\<close>

text \<open>
  The white space of the regular expression \<^verbatim>\<open>\s\<close> among the code units up to U+00FF:
  tab, line feed, vertical tab, form feed, carriage return, space and no-break space.
\<close>

definition is_space :: "char \<Rightarrow> bool" where
  "is_space c = (of_char c \<in> {9, 10, 11, 12, 13, 32, 160 :: nat})"

text \<open>
  \<^verbatim>\<open>String.prototype.toLowerCase\<close> on the same range: A to Z, and the accented capitals
  U+00C0 to U+00DE without the multiplication sign U+00D7, move up by 32.
\<close>

definition lower_char :: "char \<Rightarrow> char" where
  "lower_char c =
     (let n = of_char c :: nat
      in if (65 \<le> n \<and> n \<le> 90) \<or> (192 \<le> n \<and> n \<le> 222 \<and> n \<noteq> 215)
         then char_of (n + 32) else c)"

definition toLowerCase :: "string \<Rightarrow> string" where
  "toLowerCase s = map lower_char s"

text \<open>
  \<^verbatim>\<open>s.split(/\s+/)\<close>: the pieces between maximal runs of white space, an empty piece
  before a leading run and after a trailing one, and \<^verbatim>\<open>[""]\<close> for the empty string.
  \<open>cur\<close> is the piece being read, reversed.
\<close>

function split_ws :: "string \<Rightarrow> string \<Rightarrow> string list" where
  "split_ws cur [] = [rev cur]"
| "split_ws cur (c # cs) =
     (if is_space c then rev cur # split_ws [] (dropWhile is_space cs)
      else split_ws (c # cur) cs)"
  by pat_completeness auto
termination
  by (relation "measure (\<lambda>(cur, s). length s)") (auto simp: less_Suc_eq_le length_dropWhile_le)

definition split_space :: "string \<Rightarrow> string list" where
  "split_space s = split_ws [] s"

text \<open>\<^verbatim>\<open>.filter(Boolean)\<close> on strings drops the empty ones.\<close>

definition filter_Boolean :: "string list \<Rightarrow> string list" where
  "filter_Boolean xs = filter (\<lambda>t. t \<noteq> []) xs"

text \<open>
  A JavaScript \<^verbatim>\<open>Set\<close> keeps its members in insertion order; \<^verbatim>\<open>add\<close> of a member
  already there changes nothing. \<^verbatim>\<open>Array.from\<close> of the set is the list itself.
\<close>

definition set_add :: "'a list \<Rightarrow> 'a \<Rightarrow> 'a list" where
  "set_add s x = (if x \<in> set s then s else s @ [x])"

definition new_Set :: "'a list \<Rightarrow> 'a list" where
  "new_Set xs = foldl set_add [] xs"

fun join :: "string \<Rightarrow> string list \<Rightarrow> string" where
  "join sep [] = []"
| "join sep [x] = x"
| "join sep (x # y # ys) = x @ sep @ join sep (y # ys)"



subsection \<open>Links\<close>

record anchor =
  a_href :: "string option"      \<comment> \<open>attribute \<^verbatim>\<open>href\<close>\<close>
  a_target :: "string option"    \<comment> \<open>attribute \<^verbatim>\<open>target\<close>\<close>
  a_rel :: "string option"       \<comment> \<open>attribute \<^verbatim>\<open>rel\<close>\<close>
  a_class :: "string list"       \<comment> \<open>\<^verbatim>\<open>classList\<close>\<close>

subsection \<open>7) \<^verbatim>\<open>initExternalLinks\<close>\<close>

text \<open>The body of the \<^verbatim>\<open>forEach\<close>: the new value of \<^verbatim>\<open>rel\<close> from the old one.\<close>

definition harden_rel :: "string option \<Rightarrow> string" where
  "harden_rel r =
     (let rel = toLowerCase (case r of None \<Rightarrow> [] | Some v \<Rightarrow> v);
          need = [''noopener'', ''noreferrer''];
          relSet = new_Set (filter_Boolean (split_space rel));
          relSet' = foldl set_add relSet need
      in join '' '' relSet')"

text \<open>
  The selector \<^verbatim>\<open>a[target="_blank"]\<close>. In an HTML document the value of \<^verbatim>\<open>target\<close>
  is compared without regard to the case of the letters A to Z, so \<^verbatim>\<open>target="_BLANK"\<close>
  matches as well.
\<close>

definition ascii_lower_char :: "char \<Rightarrow> char" where
  "ascii_lower_char c =
     (let n = of_char c :: nat in if 65 \<le> n \<and> n \<le> 90 then char_of (n + 32) else c)"

definition ascii_lower :: "string \<Rightarrow> string" where
  "ascii_lower s = map ascii_lower_char s"

definition target_blank :: "anchor \<Rightarrow> bool" where
  "target_blank a = (case a_target a of None \<Rightarrow> False | Some v \<Rightarrow> ascii_lower v = ''_blank'')"

definition harden_link :: "anchor \<Rightarrow> anchor" where
  "harden_link a = (if target_blank a then a\<lparr>a_rel := Some (harden_rel (a_rel a))\<rparr> else a)"

text \<open>The pass over the links of the document, in document order.\<close>

definition initExternalLinks :: "anchor list \<Rightarrow> anchor list" where
  "initExternalLinks links = map harden_link links"


definition link_NoFollow :: anchor where
  "link_NoFollow = \<lparr>a_href = Some ''https://example.org/'', a_target = Some ''_blank'',
                    a_rel = Some ''NoFollow'', a_class = []\<rparr>"





subsection \<open>\<^verbatim>\<open>headerOffset\<close> and \<^verbatim>\<open>prefersReducedMotion\<close>\<close>

text \<open>
  \<open>topbar\<close> is the height of the first element of class \<^verbatim>\<open>topbar\<close>, \<open>None\<close> when the
  page has none.
\<close>

definition headerOffset :: "rat option \<Rightarrow> int" where
  "headerOffset topbar =
     (let h = (case topbar of Some height \<Rightarrow> \<lceil>height\<rceil> | None \<Rightarrow> 0)
      in max 0 (h + 10))"

text \<open>
  \<^verbatim>\<open>window.matchMedia && window.matchMedia("(prefers-reduced-motion: reduce)").matches\<close>:
  whether the browser has \<^verbatim>\<open>matchMedia\<close>, and what the query answers.
\<close>

definition prefersReducedMotion :: "bool \<Rightarrow> bool \<Rightarrow> bool" where
  "prefersReducedMotion has_matchMedia matches = (has_matchMedia \<and> matches)"

subsection \<open>2) \<^verbatim>\<open>initAnchors\<close>: the click handler\<close>

text \<open>
  What the click handler reads and writes. Elements are found by identifier, so the
  document is a map from identifiers to what the handler needs of the first element that
  carries the identifier.
\<close>

record view =
  v_top :: "string \<rightharpoonup> int"          \<comment> \<open>\<^verbatim>\<open>getBoundingClientRect().top\<close> of the element with an id\<close>
  v_tabindex :: "string \<rightharpoonup> string"  \<comment> \<open>its attribute \<^verbatim>\<open>tabindex\<close>\<close>
  v_pageYOffset :: int                \<comment> \<open>\<^verbatim>\<open>window.pageYOffset\<close>\<close>
  v_topbar :: "rat option"            \<comment> \<open>height of \<^verbatim>\<open>.topbar\<close>\<close>
  v_has_matchMedia :: bool
  v_reduce :: bool                    \<comment> \<open>answer of the reduced-motion query\<close>
  v_pushState_throws :: bool          \<comment> \<open>whether \<^verbatim>\<open>history.pushState\<close> throws\<close>
  v_url :: string                     \<comment> \<open>the URL last pushed, relative to the page\<close>
  v_scrolled :: "(int \<times> string) option"  \<comment> \<open>\<^verbatim>\<open>top\<close> and \<^verbatim>\<open>behavior\<close> of the last \<^verbatim>\<open>scrollTo\<close>\<close>
  v_focus :: "string option"          \<comment> \<open>identifier of the focused element\<close>
  v_can_focus :: "string \<Rightarrow> bool"
  v_defaultPrevented :: bool          \<comment> \<open>\<^verbatim>\<open>e.defaultPrevented\<close> of the event being handled\<close>

text \<open>The selector \<^verbatim>\<open>a[href^="#"]\<close>.\<close>

definition href_hash :: "anchor \<Rightarrow> bool" where
  "href_hash a = (case a_href a of Some (c # cs) \<Rightarrow> c = CHR ''#'' | _ \<Rightarrow> False)"

text \<open>
  \<^verbatim>\<open>el.closest(sel)\<close>: \<open>path\<close> lists the element and its ancestors, the element
  itself first; the result is the first of them the selector matches. For the click
  handler the path holds the links among them.
\<close>

definition closest :: "('a \<Rightarrow> bool) \<Rightarrow> 'a list \<Rightarrow> 'a option" where
  "closest sel path = find sel path"

text \<open>
  \<^verbatim>\<open>try { history.pushState(null, "", `#${id}`); } catch (_) {}\<close>: the URL becomes the
  hash sign and the fragment unless the call throws.
\<close>

definition push_hash :: "string \<Rightarrow> view \<Rightarrow> view" where
  "push_hash ident v = (if v_pushState_throws v then v else v\<lparr>v_url := ''#'' @ ident\<rparr>)"

text \<open>\<^verbatim>\<open>safeFocus(target)\<close> for the element of a given identifier.\<close>

definition focus_target :: "string \<Rightarrow> view \<Rightarrow> view" where
  "focus_target ident v = (if v_can_focus v ident then v\<lparr>v_focus := Some ident\<rparr> else v)"

definition anchor_click :: "anchor list \<Rightarrow> view \<Rightarrow> view" where
  "anchor_click path v =
     (case closest href_hash path of
        None \<Rightarrow> v
      | Some a \<Rightarrow>
          (case a_href a of
             None \<Rightarrow> v
           | Some href \<Rightarrow>
               if href = [] \<or> href = ''#'' then v
               else
                 (let ident = drop 1 href
                  in case v_top v ident of
                       None \<Rightarrow> v
                     | Some rtop \<Rightarrow>
                         (let v1 = v\<lparr>v_defaultPrevented := True\<rparr>;
                              y = rtop + v_pageYOffset v1 - headerOffset (v_topbar v1);
                              v2 = v1\<lparr>v_scrolled := Some (max 0 y,
                                     if prefersReducedMotion (v_has_matchMedia v1) (v_reduce v1)
                                     then ''auto'' else ''smooth'')\<rparr>;
                              v3 = push_hash ident v2;
                              v4 = (if v_tabindex v3 ident = None
                                    then v3\<lparr>v_tabindex := (v_tabindex v3)(ident \<mapsto> ''-1'')\<rparr>
                                    else v3)
                          in focus_target ident v4))))"

text \<open>
  A sample page: an element \<^verbatim>\<open>intro\<close> at the very top, no top bar, and a history that
  refuses the push.
\<close>

definition view0 :: view where
  "view0 = \<lparr>v_top = [''intro'' \<mapsto> 0, ''specs'' \<mapsto> 900], v_tabindex = Map.empty,
            v_pageYOffset = 0, v_topbar = None, v_has_matchMedia = True, v_reduce = False,
            v_pushState_throws = True, v_url = '''', v_scrolled = None, v_focus = None,
            v_can_focus = (\<lambda>_. True), v_defaultPrevented = False\<rparr>"

definition view1 :: view where
  "view1 = view0\<lparr>v_topbar := Some (111 / 2), v_pushState_throws := False, v_reduce := True\<rparr>"

definition hash_link :: "string \<Rightarrow> anchor" where
  "hash_link href = \<lparr>a_href = Some href, a_target = None, a_rel = None, a_class = []\<rparr>"

subsection \<open>Passes over the elements a selector matches\<close>

text \<open>
  \<^verbatim>\<open>$$(sel).forEach(body)\<close> for a body that writes to its own element only: \<open>els\<close> are
  the candidate elements in document order, \<open>sel\<close> says which of them the selector
  matches.
\<close>

definition forEach_matching :: "('a \<Rightarrow> bool) \<Rightarrow> ('a \<Rightarrow> 'a) \<Rightarrow> 'a list \<Rightarrow> 'a list" where
  "forEach_matching sel body els = map (\<lambda>el. if sel el then body el else el) els"

text \<open>An entry of an intersection notification; \<open>target\<close> names the observed element.\<close>

record 't io_entry =
  isIntersecting :: bool
  intersectionRatio :: rat
  target :: 't

subsection \<open>5) \<^verbatim>\<open>initCopyLinks\<close>\<close>

text \<open>The three texts the button shows: the link sign, the check mark and the cross.\<close>

datatype icon = LinkIcon | OkIcon | FailIcon

record button =
  b_type :: string
  b_className :: string
  b_aria_label :: string
  b_textContent :: icon
  b_marginLeft :: string

datatype hnode = Button button | Content string

record heading =
  h_level :: nat                   \<comment> \<open>the level: 2 for \<^verbatim>\<open>h2\<close>, 3 for \<^verbatim>\<open>h3\<close>, and so on\<close>
  h_id :: "string option"          \<comment> \<open>attribute \<^verbatim>\<open>id\<close>\<close>
  h_copylink :: "string option"    \<comment> \<open>\<^verbatim>\<open>dataset.copylink\<close>\<close>
  h_childNodes :: "hnode list"

text \<open>
  The selector \<^verbatim>\<open>h2[id], h3[id]\<close> on the headings of the page: the level is 2 or 3
  and the attribute \<^verbatim>\<open>id\<close> is there (it may be empty).
\<close>

definition h2_h3_id :: "heading \<Rightarrow> bool" where
  "h2_h3_id h = ((h_level h = 2 \<or> h_level h = 3) \<and> h_id h \<noteq> None)"

definition copylink_btn :: button where
  "copylink_btn = \<lparr>b_type = ''button'', b_className = ''copylink-btn'',
                    b_aria_label = ''Copy section link'', b_textContent = LinkIcon,
                    b_marginLeft = ''10px''\<rparr>"

definition add_copylink :: "heading \<Rightarrow> heading" where
  "add_copylink h =
     (if h_copylink h = Some ''done'' then h
      else h\<lparr>h_copylink := Some ''done'',
             h_childNodes := h_childNodes h @ [Button copylink_btn]\<rparr>)"

text \<open>\<open>clipboard\<close>: whether \<^verbatim>\<open>navigator.clipboard\<close> exists.\<close>

definition initCopyLinks :: "bool \<Rightarrow> heading list \<Rightarrow> heading list" where
  "initCopyLinks clipboard hs =
     (if \<not> clipboard then hs
      else if filter h2_h3_id hs = [] then hs
      else forEach_matching h2_h3_id add_copylink hs)"

text \<open>
  The click listener of an injected button: the URL handed to \<^verbatim>\<open>clipboard.writeText\<close>,
  the text shown according to whether the write succeeded, and the text set again after
  the delay (in milliseconds).
\<close>

record copy_result =
  cr_url :: string
  cr_shown :: icon
  cr_delay :: nat
  cr_after :: icon

definition copylink_click :: "string \<Rightarrow> string \<Rightarrow> string \<Rightarrow> bool \<Rightarrow> copy_result" where
  "copylink_click origin pathname ident write_ok =
     (let url = origin @ pathname @ ''#'' @ ident
      in if write_ok
         then \<lparr>cr_url = url, cr_shown = OkIcon, cr_delay = 900, cr_after = LinkIcon\<rparr>
         else \<lparr>cr_url = url, cr_shown = FailIcon, cr_delay = 900, cr_after = LinkIcon\<rparr>)"

text \<open>
  Sample headings: an \<^verbatim>\<open>h2\<close> with an identifier, an \<^verbatim>\<open>h3\<close> without, and an
  \<^verbatim>\<open>h4\<close> with an identifier.
\<close>

definition heading0 :: heading where
  "heading0 = \<lparr>h_level = 2, h_id = Some ''specs'', h_copylink = None,
               h_childNodes = [Content ''Specs'']\<rparr>"

definition heading1 :: heading where
  "heading1 = \<lparr>h_level = 3, h_id = None, h_copylink = None,
               h_childNodes = [Content ''Notes'']\<rparr>"

definition heading4 :: heading where
  "heading4 = \<lparr>h_level = 4, h_id = Some ''warranty'', h_copylink = None,
               h_childNodes = [Content ''Warranty'']\<rparr>"

subsection \<open>6) \<^verbatim>\<open>initLazyIframes\<close>\<close>

record iframe =
  f_data_src :: "string option"    \<comment> \<open>attribute \<^verbatim>\<open>data-src\<close>, read as \<^verbatim>\<open>dataset.src\<close>\<close>
  f_src :: "string option"         \<comment> \<open>attribute \<^verbatim>\<open>src\<close>\<close>
  f_loaded :: "string option"      \<comment> \<open>\<^verbatim>\<open>dataset.loaded\<close>\<close>

text \<open>The selector \<^verbatim>\<open>iframe[data-src]\<close>.\<close>

definition has_data_src :: "iframe \<Rightarrow> bool" where
  "has_data_src el = (f_data_src el \<noteq> None)"

text \<open>An absent \<^verbatim>\<open>dataset.src\<close> would be assigned as the string \<^verbatim>\<open>undefined\<close>.\<close>

definition load :: "iframe \<Rightarrow> iframe" where
  "load el =
     (if f_loaded el = Some ''true'' then el
      else el\<lparr>f_src := Some (case f_data_src el of Some d \<Rightarrow> d | None \<Rightarrow> ''undefined''),
              f_loaded := Some ''true''\<rparr>)"

text \<open>
  The iframes of the page, the observer once it is created (the options it was created
  with; its root is the viewport), and the positions (in the list of iframes) of the ones
  it watches.
\<close>

record io_options =
  io_rootMargin :: string
  io_threshold :: rat

record lazy =
  lz_frames :: "iframe list"
  lz_observer :: "io_options option"
  lz_observed :: "nat list"

definition selected :: "('a \<Rightarrow> bool) \<Rightarrow> 'a list \<Rightarrow> nat list" where
  "selected sel els = filter (\<lambda>i. sel (els ! i)) [0..<length els]"

text \<open>\<open>has_io\<close>: whether \<^verbatim>\<open>"IntersectionObserver" in window\<close>.\<close>

definition initLazyIframes :: "bool \<Rightarrow> iframe list \<Rightarrow> lazy" where
  "initLazyIframes has_io fs =
     (if filter has_data_src fs = []
      then \<lparr>lz_frames = fs, lz_observer = None, lz_observed = []\<rparr>
      else if \<not> has_io
      then \<lparr>lz_frames = forEach_matching has_data_src load fs, lz_observer = None,
            lz_observed = []\<rparr>
      else \<lparr>lz_frames = fs,
            lz_observer = Some \<lparr>io_rootMargin = ''200px 0px'', io_threshold = 1 / 100\<rparr>,
            lz_observed = foldl set_add [] (selected has_data_src fs)\<rparr>)"

definition load_at :: "nat \<Rightarrow> iframe list \<Rightarrow> iframe list" where
  "load_at i fs = (if i < length fs then fs[i := load (fs ! i)] else fs)"

definition lazy_entry :: "nat io_entry \<Rightarrow> lazy \<Rightarrow> lazy" where
  "lazy_entry e z =
     (if isIntersecting e
      then z\<lparr>lz_frames := load_at (target e) (lz_frames z),
             lz_observed := removeAll (target e) (lz_observed z)\<rparr>
      else z)"

definition lazy_callback :: "nat io_entry list \<Rightarrow> lazy \<Rightarrow> lazy" where
  "lazy_callback entries z = fold lazy_entry entries z"

text \<open>Whether a batch reports position \<open>i\<close> as intersecting.\<close>

definition hits :: "nat io_entry list \<Rightarrow> nat \<Rightarrow> bool" where
  "hits entries i = list_ex (\<lambda>e. isIntersecting e \<and> target e = i) entries"

definition iframe0 :: iframe where
  "iframe0 = \<lparr>f_data_src = Some ''https://www.youtube.com/embed/x'', f_src = None, f_loaded = None\<rparr>"

definition iframe1 :: iframe where
  "iframe1 = \<lparr>f_data_src = Some ''https://www.youtube.com/embed/y'', f_src = None, f_loaded = None\<rparr>"

text \<open>An iframe that the markup already marks as loaded, without a source.\<close>

definition iframe_marked :: iframe where
  "iframe_marked = \<lparr>f_data_src = Some ''https://www.youtube.com/embed/z'', f_src = None,
                     f_loaded = Some ''true''\<rparr>"

definition entry_at :: "bool \<Rightarrow> nat \<Rightarrow> nat io_entry" where
  "entry_at b i = \<lparr>isIntersecting = b, intersectionRatio = 1 / 2, target = i\<rparr>"

subsection \<open>3) \<^verbatim>\<open>initActiveNav\<close>\<close>

text \<open>
  \<^verbatim>\<open>a.getAttribute("href").slice(1)\<close> for a link the selector \<^verbatim>\<open>a[href^="#"]\<close> matched:
  the fragment after the hash sign.
\<close>

definition fragment :: "anchor \<Rightarrow> string" where
  "fragment a = drop 1 (case a_href a of Some h \<Rightarrow> h | None \<Rightarrow> [])"

text \<open>
  \<^verbatim>\<open>document.getElementById\<close>, with the elements named by their identifiers: \<open>ids\<close> are
  the identifiers present in the document; the empty identifier names nothing.
\<close>

definition getElementById :: "string list \<Rightarrow> string \<Rightarrow> string option" where
  "getElementById ids ident = (if ident \<noteq> [] \<and> ident \<in> set ids then Some ident else None)"

text \<open>
  \<^verbatim>\<open>mapIdToLinks\<close>: from a fragment to the links that carry it, in document order. A
  link is named by its position in \<^verbatim>\<open>navLinks\<close>.
\<close>

definition map_push :: "anchor list \<Rightarrow> nat \<Rightarrow> (string \<rightharpoonup> nat list) \<Rightarrow> (string \<rightharpoonup> nat list)" where
  "map_push navLinks i m =
     (let ident = fragment (navLinks ! i);
          m1 = (if m ident = None then m(ident \<mapsto> []) else m)
      in m1(ident \<mapsto> (case m1 ident of Some l \<Rightarrow> l | None \<Rightarrow> []) @ [i]))"

definition build_map :: "anchor list \<Rightarrow> (string \<rightharpoonup> nat list)" where
  "build_map navLinks = fold (map_push navLinks) [0..<length navLinks] Map.empty"

record nav =
  nv_links :: "anchor list"                 \<comment> \<open>\<^verbatim>\<open>navLinks\<close>, with their present class lists\<close>
  nv_map :: "string \<rightharpoonup> nat list"          \<comment> \<open>\<^verbatim>\<open>mapIdToLinks\<close>\<close>
  nv_observed :: "string list"              \<comment> \<open>the targets handed to \<^verbatim>\<open>io.observe\<close>\<close>
  nv_rootMargin :: string
  nv_threshold :: "rat list"

text \<open>
  \<open>has_io\<close>: whether \<^verbatim>\<open>"IntersectionObserver" in window\<close>. The result is \<open>None\<close> when the
  function returns before it creates the observer.
\<close>

definition initActiveNav :: "bool \<Rightarrow> rat option \<Rightarrow> string list \<Rightarrow> anchor list \<Rightarrow> nav option" where
  "initActiveNav has_io topbar ids navLinks =
     (if navLinks = [] \<or> \<not> has_io then None
      else
        (let targets = List.map_filter (\<lambda>a. getElementById ids (fragment a)) navLinks
         in if targets = [] then None
            else Some \<lparr>nv_links = navLinks,
                       nv_map = build_map navLinks,
                       nv_observed = foldl set_add [] targets,
                       nv_rootMargin = ''-'' @ num_to_string (headerOffset topbar) @ ''px 0px -65% 0px'',
                       nv_threshold = [1 / 10, 1 / 4, 1 / 2, 3 / 4]\<rparr>))"

text \<open>\<^verbatim>\<open>classList.remove\<close> and \<^verbatim>\<open>classList.add\<close> of \<^verbatim>\<open>is-active\<close>.\<close>

definition remove_active :: "anchor \<Rightarrow> anchor" where
  "remove_active a = a\<lparr>a_class := removeAll ''is-active'' (a_class a)\<rparr>"

definition add_active :: "anchor \<Rightarrow> anchor" where
  "add_active a = a\<lparr>a_class := set_add (a_class a) ''is-active''\<rparr>"

definition clear :: "anchor list \<Rightarrow> anchor list" where
  "clear navLinks = map remove_active navLinks"

definition add_active_at :: "nat \<Rightarrow> anchor list \<Rightarrow> anchor list" where
  "add_active_at i navLinks =
     (if i < length navLinks then navLinks[i := add_active (navLinks ! i)] else navLinks)"

text \<open>\<^verbatim>\<open>x.intersectionRatio || 0\<close>.\<close>

definition ratio_or_0 :: "'t io_entry \<Rightarrow> rat" where
  "ratio_or_0 x = (if intersectionRatio x \<noteq> 0 then intersectionRatio x else 0)"

text \<open>
  \<^verbatim>\<open>entries.filter(x => x.isIntersecting).sort((a, b) => rb - ra)[0]\<close>: the sort is stable
  and puts the greater ratio first, so sorting by the negated ratio gives the same order.
\<close>

definition most_visible :: "'t io_entry list \<Rightarrow> 't io_entry option" where
  "most_visible entries =
     (case sort_key (\<lambda>x. - ratio_or_0 x) (filter isIntersecting entries) of
        [] \<Rightarrow> None
      | v # _ \<Rightarrow> Some v)"

definition active_callback :: "string io_entry list \<Rightarrow> nav \<Rightarrow> nav" where
  "active_callback entries nv =
     (case most_visible entries of
        None \<Rightarrow> nv
      | Some visible \<Rightarrow>
          (let ident = target visible;
               cleared = clear (nv_links nv);
               links = (case nv_map nv ident of Some l \<Rightarrow> l | None \<Rightarrow> [])
           in nv\<lparr>nv_links := fold add_active_at links cleared\<rparr>))"

definition is_active :: "anchor \<Rightarrow> bool" where
  "is_active a = (''is-active'' \<in> set (a_class a))"

text \<open>The section identifiers that have a navigation link carrying the active class.\<close>

definition active_ids :: "nav \<Rightarrow> string set" where
  "active_ids nv = set (map fragment (filter is_active (nv_links nv)))"

definition nav_link :: "string \<Rightarrow> string list \<Rightarrow> anchor" where
  "nav_link href cls = \<lparr>a_href = Some href, a_target = None, a_rel = None, a_class = cls\<rparr>"

definition section_entry :: "bool \<Rightarrow> rat \<Rightarrow> string \<Rightarrow> string io_entry" where
  "section_entry b r ident = \<lparr>isIntersecting = b, intersectionRatio = r, target = ident\<rparr>"

text \<open>A page whose markup already marks two links active, and one that marks none.\<close>

definition nav_two_active :: nav where
  "nav_two_active =
     \<lparr>nv_links = [nav_link ''#intro'' [''is-active''], nav_link ''#specs'' [''is-active'']],
      nv_map = build_map [nav_link ''#intro'' [''is-active''], nav_link ''#specs'' [''is-active'']],
      nv_observed = [''intro'', ''specs''], nv_rootMargin = ''-10px 0px -65% 0px'',
      nv_threshold = [1 / 10, 1 / 4, 1 / 2, 3 / 4]\<rparr>"

definition nav_fresh :: nav where
  "nav_fresh =
     \<lparr>nv_links = [nav_link ''#intro'' [], nav_link ''#specs'' [], nav_link ''#intro'' [''small'']],
      nv_map = build_map [nav_link ''#intro'' [], nav_link ''#specs'' [], nav_link ''#intro'' [''small'']],
      nv_observed = [''intro'', ''specs''], nv_rootMargin = ''-10px 0px -65% 0px'',
      nv_threshold = [1 / 10, 1 / 4, 1 / 2, 3 / 4]\<rparr>"

subsection \<open>1) \<^verbatim>\<open>initMobileMenu\<close>, version 2: touch handlers and the click guard\<close>

text \<open>
  \<^verbatim>\<open>setTimeout(f, ms)\<close> records the time from which the callback may run: the time of
  the call plus the delay. Every callback the menu registers is
  \<^verbatim>\<open>() => { ignoreClick = false; }\<close>, and the script never cancels one.
\<close>

definition set_timeout :: "nat \<Rightarrow> page \<Rightarrow> page" where
  "set_timeout ms s = s\<lparr>timers := timers s @ [now s + ms]\<rparr>"

definition timer_fire :: "page \<Rightarrow> page" where
  "timer_fire s = s\<lparr>ignoreClick := False\<rparr>"

text \<open>
  The event loop runs a timer callback, as a task of its own. A callback runs no earlier
  than its due time, and as much later as the event loop pleases. Every timer has the
  same delay and the clock never goes back, so the pending callbacks fall due in the order
  they were registered: the first of the list is the next to run. When none is due,
  there is no such task, and nothing happens.
\<close>

definition run_timer :: "page \<Rightarrow> page" where
  "run_timer s =
     (case timers s of
        [] \<Rightarrow> s
      | d # rest \<Rightarrow> if d \<le> now s then timer_fire (s\<lparr>timers := rest\<rparr>) else s)"

text \<open>
  \<^verbatim>\<open>onToggle\<close> and \<^verbatim>\<open>onClose\<close>: \<^verbatim>\<open>preventDefault\<close> and \<^verbatim>\<open>stopPropagation\<close> act on the
  event object, which is not part of the page state; what remains is the call.
\<close>

definition onToggle :: "page \<Rightarrow> page" where
  "onToggle s = toggle s"

definition onClose :: "page \<Rightarrow> page" where
  "onClose s = setOpen False s"

text \<open>
  The \<^verbatim>\<open>touchend\<close> listeners set the flag, call \<^verbatim>\<open>onToggle\<close> or \<^verbatim>\<open>onClose\<close>, and only
  then call \<^verbatim>\<open>setTimeout\<close>: \<open>dur\<close> is the time the listener has run by then, so the
  delay counts from the arrival of the event plus \<open>dur\<close>.
\<close>

definition btn_touchend :: "nat \<Rightarrow> page \<Rightarrow> page" where
  "btn_touchend dur s =
     (let s1 = s\<lparr>ignoreClick := True\<rparr>;
          s2 = onToggle s1;
          s3 = s2\<lparr>now := now s2 + dur\<rparr>
      in set_timeout 450 s3)"

definition btn_click_v2 :: "page \<Rightarrow> page" where
  "btn_click_v2 s = (if ignoreClick s then s else onToggle s)"

definition scrim_touchend :: "nat \<Rightarrow> page \<Rightarrow> page" where
  "scrim_touchend dur s =
     (let s1 = s\<lparr>ignoreClick := True\<rparr>;
          s2 = onClose s1;
          s3 = s2\<lparr>now := now s2 + dur\<rparr>
      in set_timeout 450 s3)"

definition scrim_click_v2 :: "page \<Rightarrow> page" where
  "scrim_click_v2 s = (if ignoreClick s then s else onClose s)"

text \<open>
  The other listeners that change the drawer, the same in both versions: a click inside
  the drawer (\<open>on_link\<close>: whether the target lies in a link), the Escape key, and a resize
  to the given inner width.
\<close>

definition drawer_click :: "bool \<Rightarrow> page \<Rightarrow> page" where
  "drawer_click on_link s = (if on_link then setOpen False s else s)"

definition key_escape :: "page \<Rightarrow> page" where
  "key_escape s = (if isOpen s then setOpen False s else s)"

definition resize :: "int \<Rightarrow> page \<Rightarrow> page" where
  "resize innerWidth s = (if innerWidth > 760 \<and> isOpen s then setOpen False s else s)"

text \<open>
  The tasks of the event loop that concern the menu: the events the listeners are
  registered for, and the run of a timer callback. A touch carries the time its listener
  takes up to the call of \<^verbatim>\<open>setTimeout\<close>.
\<close>

datatype menu_event =
  BtnTouchEnd nat | BtnClick | ScrimTouchEnd nat | ScrimClick | DrawerClick bool | KeyEscape
  | Resize int | TimerFire

fun handle_v2 :: "menu_event \<Rightarrow> page \<Rightarrow> page" where
  "handle_v2 (BtnTouchEnd dur) s = btn_touchend dur s"
| "handle_v2 BtnClick s = btn_click_v2 s"
| "handle_v2 (ScrimTouchEnd dur) s = scrim_touchend dur s"
| "handle_v2 ScrimClick s = scrim_click_v2 s"
| "handle_v2 (DrawerClick on_link) s = drawer_click on_link s"
| "handle_v2 KeyEscape s = key_escape s"
| "handle_v2 (Resize w) s = resize w s"
| "handle_v2 TimerFire s = run_timer s"

text \<open>
  A task arrives at a time and runs once the tasks before it are done: the clock moves
  on to the time of arrival unless it is past it already, and the task runs. Which tasks
  there are, and in which order, is the choice of the user and of the event loop: a run
  is any list of them.
\<close>

definition deliver :: "nat \<times> menu_event \<Rightarrow> page \<Rightarrow> page" where
  "deliver te s = handle_v2 (snd te) (s\<lparr>now := max (now s) (fst te)\<rparr>)"




subsection \<open>The document tree\<close>

text \<open>
  An element with its identity (a number no other element of the document has), its tag
  name in lower case, its class list and its child nodes. A text node is a leaf whose
  tag is \<^verbatim>\<open>#text\<close> followed by its text.
\<close>

datatype node = Node (nid: nat) (tag: string) (classList: "string list") (childNodes: "node list")

text \<open>What the script reads of an element: identity, tag name and class list.\<close>

type_synonym element = "nat \<times> string \<times> string list"

fun ids_of :: "node \<Rightarrow> nat list" where
  "ids_of (Node i tg cl ks) = i # concat (map ids_of ks)"

text \<open>\<^verbatim>\<open>$$("table")\<close>: the tables in document order.\<close>

fun tables_of :: "node \<Rightarrow> nat list" where
  "tables_of (Node i tg cl ks) = (if tg = ''table'' then [i] else []) @ concat (map tables_of ks)"

fun first_some :: "'a option list \<Rightarrow> 'a option" where
  "first_some [] = None"
| "first_some (None # xs) = first_some xs"
| "first_some (Some x # xs) = Some x"

text \<open>
  The elements from the root of the document down to the element with identity \<open>t\<close>,
  that element last; \<open>None\<close> when the document has no such element.
\<close>

fun chain :: "nat \<Rightarrow> node \<Rightarrow> element list option" where
  "chain t (Node i tg cl ks) =
     (if i = t then Some [(i, tg, cl)]
      else map_option (\<lambda>p. (i, tg, cl) # p) (first_some (map (chain t) ks)))"

text \<open>\<^verbatim>\<open>el.parentElement\<close>, from the chain of \<open>el\<close>.\<close>

definition parentElement :: "element list \<Rightarrow> element option" where
  "parentElement c = (case rev c of self # parent # _ \<Rightarrow> Some parent | _ \<Rightarrow> None)"

text \<open>The selector \<^verbatim>\<open>pre, code\<close>.\<close>

definition is_pre_code :: "element \<Rightarrow> bool" where
  "is_pre_code e = (fst (snd e) = ''pre'' \<or> fst (snd e) = ''code'')"

text \<open>An identity no element of the document has: \<^verbatim>\<open>document.createElement\<close>.\<close>

definition fresh_id :: "node \<Rightarrow> nat" where
  "fresh_id d = Suc (fold max (ids_of d) 0)"

text \<open>
  \<^verbatim>\<open>parent.insertBefore(wrap, table); wrap.appendChild(table)\<close> for a new \<^verbatim>\<open>div\<close> of
  identity \<open>w\<close> and class \<^verbatim>\<open>table-wrap\<close>: the wrapper takes the place of the table among
  the children of the table's parent, and the table becomes its only child.
\<close>

fun insert_wrapper :: "nat \<Rightarrow> nat \<Rightarrow> node \<Rightarrow> node" where
  "insert_wrapper t w (Node i tg cl ks) =
     Node i tg cl
       (map (\<lambda>k. if nid k = t then Node w ''div'' [''table-wrap''] [k]
                 else insert_wrapper t w k) ks)"

subsection \<open>4) \<^verbatim>\<open>initTableWrap\<close>\<close>

text \<open>The body of the \<^verbatim>\<open>forEach\<close>, for the table of identity \<open>t\<close>.\<close>

definition wrap_table :: "nat \<Rightarrow> node \<Rightarrow> node" where
  "wrap_table t d =
     (case chain t d of
        None \<Rightarrow> d
      | Some c \<Rightarrow>
          (case parentElement c of
             None \<Rightarrow> d
           | Some parent \<Rightarrow>
               if ''table-wrap'' \<in> set (snd (snd parent)) then d
               else
                 (case closest is_pre_code (rev c) of
                    Some skip \<Rightarrow> d
                  | None \<Rightarrow> insert_wrapper t (fresh_id d) d)))"

definition initTableWrap :: "node \<Rightarrow> node" where
  "initTableWrap d = fold wrap_table (tables_of d) d"

subsection \<open>The table-wrap pass in the words of the specification\<close>

text \<open>
  A document without identities, and the pass as the specification words it: every table
  whose parent does not carry the wrapper class and that is not inside a preformatted or
  code block is put into one wrapper, which takes the table's place. \<open>inside\<close> says
  whether the element lies inside such a block.
\<close>

datatype shape = Shape (stag: string) "string list" "shape list"

fun shape_of :: "node \<Rightarrow> shape" where
  "shape_of (Node i tg cl ks) = Shape tg cl (map shape_of ks)"

fun wrap_spec :: "bool \<Rightarrow> shape \<Rightarrow> shape" where
  "wrap_spec inside (Shape tg cl ks) =
     Shape tg cl
       (map (\<lambda>k. if stag k = ''table'' \<and> ''table-wrap'' \<notin> set cl
                     \<and> \<not> (inside \<or> tg = ''pre'' \<or> tg = ''code'')
                 then Shape ''div'' [''table-wrap''] [wrap_spec (inside \<or> tg = ''pre'' \<or> tg = ''code'') k]
                 else wrap_spec (inside \<or> tg = ''pre'' \<or> tg = ''code'') k) ks)"

text \<open>
  A sample document: a bare table, a table already wrapped, a table inside \<^verbatim>\<open>pre\<close>, and
  a table nested in a cell of the first one.
\<close>

definition doc0 :: node where
  "doc0 =
     Node 0 ''body'' []
       [Node 1 ''table'' [] [Node 2 ''td'' [] [Node 3 ''table'' [''inner''] []]],
        Node 4 ''div'' [''table-wrap''] [Node 5 ''table'' [] []],
        Node 6 ''pre'' [] [Node 7 ''span'' [] [Node 8 ''table'' [] []]]]"

subsection \<open>Devices for the proofs about the table-wrap pass\<close>

text \<open>
  The document in which every child whose identity lies in \<open>S\<close> sits in a wrapper, the
  wrapper of the element \<open>t\<close> having identity \<open>W t\<close>.
\<close>

fun wrapped :: "nat set \<Rightarrow> (nat \<Rightarrow> nat) \<Rightarrow> node \<Rightarrow> node" where
  "wrapped S W (Node i tg cl ks) =
     Node i tg cl
       (map (\<lambda>k. if nid k \<in> S then Node (W (nid k)) ''div'' [''table-wrap''] [wrapped S W k]
                 else wrapped S W k) ks)"

text \<open>The chain of an element in that document, from its chain in the original one.\<close>

definition weave_all :: "nat set \<Rightarrow> (nat \<Rightarrow> nat) \<Rightarrow> element list \<Rightarrow> element list" where
  "weave_all S W c =
     concat (map (\<lambda>a. (if fst a \<in> S then [(W (fst a), ''div'', [''table-wrap''])] else []) @ [a]) c)"

definition weave :: "nat set \<Rightarrow> (nat \<Rightarrow> nat) \<Rightarrow> element list \<Rightarrow> element list" where
  "weave S W c = (case c of [] \<Rightarrow> [] | a # rest \<Rightarrow> a # weave_all S W rest)"

text \<open>Whether the pass wraps the element at the end of a chain.\<close>

definition eligible_chain :: "element list \<Rightarrow> bool" where
  "eligible_chain c =
     (case parentElement c of
        None \<Rightarrow> False
      | Some parent \<Rightarrow> ''table-wrap'' \<notin> set (snd (snd parent)) \<and> closest is_pre_code (rev c) = None)"

definition eligible :: "nat \<Rightarrow> node \<Rightarrow> bool" where
  "eligible t d = (case chain t d of None \<Rightarrow> False | Some c \<Rightarrow> eligible_chain c)"

text \<open>The elements of a document in document order.\<close>

fun elems_of :: "node \<Rightarrow> element list" where
  "elems_of (Node i tg cl ks) = (i, tg, cl) # concat (map elems_of ks)"

subsection \<open>8) \<^verbatim>\<open>initAmazonMetaChip\<close>\<close>

text \<open>\<^verbatim>\<open>$$(sel)\<close> on the document tree: the identities of the matching elements, in document order.\<close>

definition query_all :: "(element \<Rightarrow> bool) \<Rightarrow> node \<Rightarrow> nat list" where
  "query_all sel d = map fst (filter sel (elems_of d))"

text \<open>The element of a given identity, with what is below it.\<close>

fun find_node :: "nat \<Rightarrow> node \<Rightarrow> node option" where
  "find_node b (Node i tg cl ks) =
     (if i = b then Some (Node i tg cl ks) else first_some (map (find_node b) ks))"

text \<open>\<^verbatim>\<open>el.querySelector(sel)\<close>: the first matching element strictly below \<open>el\<close>.\<close>

definition querySelector :: "(element \<Rightarrow> bool) \<Rightarrow> node \<Rightarrow> element option" where
  "querySelector sel el = find sel (concat (map elems_of (childNodes el)))"

text \<open>\<^verbatim>\<open>el.appendChild(new)\<close> for the element \<open>el\<close> of identity \<open>b\<close>.\<close>

fun appendChild :: "nat \<Rightarrow> node \<Rightarrow> node \<Rightarrow> node" where
  "appendChild b new (Node i tg cl ks) =
     (if i = b then Node i tg cl (ks @ [new])
      else Node i tg cl (map (appendChild b new) ks))"

text \<open>The selectors \<^verbatim>\<open>.btn.btn--amazon\<close> and \<^verbatim>\<open>.btn-meta\<close>.\<close>

definition is_amazon_btn :: "element \<Rightarrow> bool" where
  "is_amazon_btn e = (''btn'' \<in> set (snd (snd e)) \<and> ''btn--amazon'' \<in> set (snd (snd e)))"

definition has_btn_meta :: "element \<Rightarrow> bool" where
  "has_btn_meta e = (''btn-meta'' \<in> set (snd (snd e)))"

text \<open>
  The chip: a new \<^verbatim>\<open>span\<close> of class \<^verbatim>\<open>btn-meta\<close> whose text content is \<^verbatim>\<open>Amazon.ca\<close>,
  that is, with one text node below it.
\<close>

definition chip :: "nat \<Rightarrow> node" where
  "chip w = Node w ''span'' [''btn-meta''] [Node (Suc w) ''#text Amazon.ca'' [] []]"

definition chip_button :: "nat \<Rightarrow> node \<Rightarrow> node" where
  "chip_button b d =
     (case find_node b d of
        None \<Rightarrow> d
      | Some btn \<Rightarrow>
          (case querySelector has_btn_meta btn of
             Some hasChip \<Rightarrow> d
           | None \<Rightarrow> appendChild b (chip (fresh_id d)) d))"

definition initAmazonMetaChip :: "node \<Rightarrow> node" where
  "initAmazonMetaChip d = fold chip_button (query_all is_amazon_btn d) d"

definition doc1 :: node where
  "doc1 =
     Node 0 ''body'' []
       [Node 1 ''a'' [''btn'', ''btn--amazon''] [Node 2 ''#text Buy'' [] []],
        Node 3 ''a'' [''btn'', ''btn--amazon''] [Node 4 ''span'' [''btn-meta''] []],
        Node 5 ''a'' [''btn''] []]"

subsection \<open>Version 1: the click listeners of the menu\<close>

text \<open>
  Version 1 registers \<^verbatim>\<open>toggle\<close> itself on the toggle and \<^verbatim>\<open>() => setOpen(false)\<close> on the
  scrim, and has no touch listeners.
\<close>

definition btn_click_v1 :: "page \<Rightarrow> page" where
  "btn_click_v1 s = toggle s"

definition scrim_click_v1 :: "page \<Rightarrow> page" where
  "scrim_click_v1 s = setOpen False s"

section \<open>Version 2: the passes as the second file has them\<close>

text \<open>
  The second file repeats every function outside the menu wiring. Each is translated here
  from the text of that file, so that the two versions can be compared; what the browser
  provides (the document tree, strings, sets, the scroll and history calls) is shared.
\<close>

subsection \<open>Version 2, Helpers: \<^verbatim>\<open>scrollLock\<close>, \<^verbatim>\<open>headerOffset\<close> and \<^verbatim>\<open>prefersReducedMotion\<close>\<close>

definition scrollLock_lock_v2 :: "page \<Rightarrow> page" where
  "scrollLock_lock_v2 s =
     (let y = num_or (num_or (win_scrollY s) (html_scrollTop s)) 0;
          s0 = s\<lparr>lock_y := y\<rparr>;
          s1 = set_html_style ''scrollBehavior'' ''auto'' s0;
          s2 = set_body_style ''position'' ''fixed'' s1;
          s3 = set_body_style ''top'' (''-'' @ num_to_string y @ ''px'') s2;
          s4 = set_body_style ''left'' ''0'' s3;
          s5 = set_body_style ''right'' ''0'' s4
      in set_body_style ''width'' ''100%'' s5)"

definition scrollLock_unlock_v2 :: "page \<Rightarrow> page" where
  "scrollLock_unlock_v2 s =
     (let y = num_or (lock_y s) 0;
          s1 = set_body_style ''position'' '''' s;
          s2 = set_body_style ''top'' '''' s1;
          s3 = set_body_style ''left'' '''' s2;
          s4 = set_body_style ''right'' '''' s3;
          s5 = set_body_style ''width'' '''' s4;
          s6 = window_scrollTo y s5;
          s7 = s6\<lparr>lock_y := 0\<rparr>
      in set_html_style ''scrollBehavior'' '''' s7)"

definition headerOffset_v2 :: "rat option \<Rightarrow> int" where
  "headerOffset_v2 topbar =
     (let h = (case topbar of Some height \<Rightarrow> \<lceil>height\<rceil> | None \<Rightarrow> 0)
      in max 0 (h + 10))"

definition prefersReducedMotion_v2 :: "bool \<Rightarrow> bool \<Rightarrow> bool" where
  "prefersReducedMotion_v2 has_matchMedia matches = (has_matchMedia \<and> matches)"

subsection \<open>Version 2, 2) \<^verbatim>\<open>initAnchors\<close>\<close>

definition href_hash_v2 :: "anchor \<Rightarrow> bool" where
  "href_hash_v2 a = (case a_href a of Some (c # cs) \<Rightarrow> c = CHR ''#'' | _ \<Rightarrow> False)"

definition push_hash_v2 :: "string \<Rightarrow> view \<Rightarrow> view" where
  "push_hash_v2 ident v = (if v_pushState_throws v then v else v\<lparr>v_url := ''#'' @ ident\<rparr>)"

definition focus_target_v2 :: "string \<Rightarrow> view \<Rightarrow> view" where
  "focus_target_v2 ident v = (if v_can_focus v ident then v\<lparr>v_focus := Some ident\<rparr> else v)"

definition anchor_click_v2 :: "anchor list \<Rightarrow> view \<Rightarrow> view" where
  "anchor_click_v2 path v =
     (case closest href_hash_v2 path of
        None \<Rightarrow> v
      | Some a \<Rightarrow>
          (case a_href a of
             None \<Rightarrow> v
           | Some href \<Rightarrow>
               if href = [] \<or> href = ''#'' then v
               else
                 (let ident = drop 1 href
                  in case v_top v ident of
                       None \<Rightarrow> v
                     | Some rtop \<Rightarrow>
                         (let v1 = v\<lparr>v_defaultPrevented := True\<rparr>;
                              y = rtop + v_pageYOffset v1 - headerOffset_v2 (v_topbar v1);
                              v2 = v1\<lparr>v_scrolled := Some (max 0 y,
                                     if prefersReducedMotion_v2 (v_has_matchMedia v1) (v_reduce v1)
                                     then ''auto'' else ''smooth'')\<rparr>;
                              v3 = push_hash_v2 ident v2;
                              v4 = (if v_tabindex v3 ident = None
                                    then v3\<lparr>v_tabindex := (v_tabindex v3)(ident \<mapsto> ''-1'')\<rparr>
                                    else v3)
                          in focus_target_v2 ident v4))))"

subsection \<open>Version 2, 3) \<^verbatim>\<open>initActiveNav\<close>\<close>

definition fragment_v2 :: "anchor \<Rightarrow> string" where
  "fragment_v2 a = drop 1 (case a_href a of Some h \<Rightarrow> h | None \<Rightarrow> [])"

definition map_push_v2 :: "anchor list \<Rightarrow> nat \<Rightarrow> (string \<rightharpoonup> nat list) \<Rightarrow> (string \<rightharpoonup> nat list)" where
  "map_push_v2 navLinks i m =
     (let ident = fragment_v2 (navLinks ! i);
          m1 = (if m ident = None then m(ident \<mapsto> []) else m)
      in m1(ident \<mapsto> (case m1 ident of Some l \<Rightarrow> l | None \<Rightarrow> []) @ [i]))"

definition build_map_v2 :: "anchor list \<Rightarrow> (string \<rightharpoonup> nat list)" where
  "build_map_v2 navLinks = fold (map_push_v2 navLinks) [0..<length navLinks] Map.empty"

definition initActiveNav_v2 :: "bool \<Rightarrow> rat option \<Rightarrow> string list \<Rightarrow> anchor list \<Rightarrow> nav option" where
  "initActiveNav_v2 has_io topbar ids navLinks =
     (if navLinks = [] \<or> \<not> has_io then None
      else
        (let targets = List.map_filter (\<lambda>a. getElementById ids (fragment_v2 a)) navLinks
         in if targets = [] then None
            else Some \<lparr>nv_links = navLinks,
                       nv_map = build_map_v2 navLinks,
                       nv_observed = foldl set_add [] targets,
                       nv_rootMargin = ''-'' @ num_to_string (headerOffset_v2 topbar) @ ''px 0px -65% 0px'',
                       nv_threshold = [1 / 10, 1 / 4, 1 / 2, 3 / 4]\<rparr>))"

definition remove_active_v2 :: "anchor \<Rightarrow> anchor" where
  "remove_active_v2 a = a\<lparr>a_class := removeAll ''is-active'' (a_class a)\<rparr>"

definition add_active_v2 :: "anchor \<Rightarrow> anchor" where
  "add_active_v2 a = a\<lparr>a_class := set_add (a_class a) ''is-active''\<rparr>"

definition clear_v2 :: "anchor list \<Rightarrow> anchor list" where
  "clear_v2 navLinks = map remove_active_v2 navLinks"

definition add_active_at_v2 :: "nat \<Rightarrow> anchor list \<Rightarrow> anchor list" where
  "add_active_at_v2 i navLinks =
     (if i < length navLinks then navLinks[i := add_active_v2 (navLinks ! i)] else navLinks)"

definition ratio_or_0_v2 :: "'t io_entry \<Rightarrow> rat" where
  "ratio_or_0_v2 x = (if intersectionRatio x \<noteq> 0 then intersectionRatio x else 0)"

definition most_visible_v2 :: "'t io_entry list \<Rightarrow> 't io_entry option" where
  "most_visible_v2 entries =
     (case sort_key (\<lambda>x. - ratio_or_0_v2 x) (filter isIntersecting entries) of
        [] \<Rightarrow> None
      | v # _ \<Rightarrow> Some v)"

definition active_callback_v2 :: "string io_entry list \<Rightarrow> nav \<Rightarrow> nav" where
  "active_callback_v2 entries nv =
     (case most_visible_v2 entries of
        None \<Rightarrow> nv
      | Some visible \<Rightarrow>
          (let ident = target visible;
               cleared = clear_v2 (nv_links nv)
           in nv\<lparr>nv_links :=
                  fold add_active_at_v2
                    (case nv_map nv ident of Some l \<Rightarrow> l | None \<Rightarrow> []) cleared\<rparr>))"

subsection \<open>Version 2, 4) \<^verbatim>\<open>initTableWrap\<close>\<close>

definition is_pre_code_v2 :: "element \<Rightarrow> bool" where
  "is_pre_code_v2 e = (fst (snd e) = ''pre'' \<or> fst (snd e) = ''code'')"

fun insert_wrapper_v2 :: "nat \<Rightarrow> nat \<Rightarrow> node \<Rightarrow> node" where
  "insert_wrapper_v2 t w (Node i tg cl ks) =
     Node i tg cl
       (map (\<lambda>k. if nid k = t then Node w ''div'' [''table-wrap''] [k]
                 else insert_wrapper_v2 t w k) ks)"

definition wrap_table_v2 :: "nat \<Rightarrow> node \<Rightarrow> node" where
  "wrap_table_v2 t d =
     (case chain t d of
        None \<Rightarrow> d
      | Some c \<Rightarrow>
          (case parentElement c of
             None \<Rightarrow> d
           | Some parent \<Rightarrow>
               if ''table-wrap'' \<in> set (snd (snd parent)) then d
               else
                 (case closest is_pre_code_v2 (rev c) of
                    Some skip \<Rightarrow> d
                  | None \<Rightarrow> insert_wrapper_v2 t (fresh_id d) d)))"

definition initTableWrap_v2 :: "node \<Rightarrow> node" where
  "initTableWrap_v2 d = fold wrap_table_v2 (tables_of d) d"

subsection \<open>Version 2, 5) \<^verbatim>\<open>initCopyLinks\<close>\<close>

definition h2_h3_id_v2 :: "heading \<Rightarrow> bool" where
  "h2_h3_id_v2 h = ((h_level h = 2 \<or> h_level h = 3) \<and> h_id h \<noteq> None)"

definition copylink_btn_v2 :: button where
  "copylink_btn_v2 = \<lparr>b_type = ''button'', b_className = ''copylink-btn'',
                    b_aria_label = ''Copy section link'', b_textContent = LinkIcon,
                    b_marginLeft = ''10px''\<rparr>"

definition add_copylink_v2 :: "heading \<Rightarrow> heading" where
  "add_copylink_v2 h =
     (if h_copylink h = Some ''done'' then h
      else h\<lparr>h_copylink := Some ''done'',
             h_childNodes := h_childNodes h @ [Button copylink_btn_v2]\<rparr>)"

definition initCopyLinks_v2 :: "bool \<Rightarrow> heading list \<Rightarrow> heading list" where
  "initCopyLinks_v2 clipboard hs =
     (if \<not> clipboard then hs
      else if filter h2_h3_id_v2 hs = [] then hs
      else forEach_matching h2_h3_id_v2 add_copylink_v2 hs)"

definition copylink_click_v2 :: "string \<Rightarrow> string \<Rightarrow> string \<Rightarrow> bool \<Rightarrow> copy_result" where
  "copylink_click_v2 origin pathname ident write_ok =
     (let url = origin @ pathname @ ''#'' @ ident
      in if write_ok
         then \<lparr>cr_url = url, cr_shown = OkIcon, cr_delay = 900, cr_after = LinkIcon\<rparr>
         else \<lparr>cr_url = url, cr_shown = FailIcon, cr_delay = 900, cr_after = LinkIcon\<rparr>)"

subsection \<open>Version 2, 6) \<^verbatim>\<open>initLazyIframes\<close>\<close>

definition has_data_src_v2 :: "iframe \<Rightarrow> bool" where
  "has_data_src_v2 el = (f_data_src el \<noteq> None)"

definition load_v2 :: "iframe \<Rightarrow> iframe" where
  "load_v2 el =
     (if f_loaded el = Some ''true'' then el
      else el\<lparr>f_src := Some (case f_data_src el of Some d \<Rightarrow> d | None \<Rightarrow> ''undefined''),
              f_loaded := Some ''true''\<rparr>)"

definition initLazyIframes_v2 :: "bool \<Rightarrow> iframe list \<Rightarrow> lazy" where
  "initLazyIframes_v2 has_io fs =
     (if filter has_data_src_v2 fs = []
      then \<lparr>lz_frames = fs, lz_observer = None, lz_observed = []\<rparr>
      else if \<not> has_io
      then \<lparr>lz_frames = forEach_matching has_data_src_v2 load_v2 fs, lz_observer = None,
            lz_observed = []\<rparr>
      else \<lparr>lz_frames = fs,
            lz_observer = Some \<lparr>io_rootMargin = ''200px 0px'', io_threshold = 1 / 100\<rparr>,
            lz_observed = foldl set_add [] (selected has_data_src_v2 fs)\<rparr>)"

definition load_at_v2 :: "nat \<Rightarrow> iframe list \<Rightarrow> iframe list" where
  "load_at_v2 i fs = (if i < length fs then fs[i := load_v2 (fs ! i)] else fs)"

definition lazy_entry_v2 :: "nat io_entry \<Rightarrow> lazy \<Rightarrow> lazy" where
  "lazy_entry_v2 e z =
     (if isIntersecting e
      then z\<lparr>lz_frames := load_at_v2 (target e) (lz_frames z),
             lz_observed := removeAll (target e) (lz_observed z)\<rparr>
      else z)"

definition lazy_callback_v2 :: "nat io_entry list \<Rightarrow> lazy \<Rightarrow> lazy" where
  "lazy_callback_v2 entries z = fold lazy_entry_v2 entries z"

subsection \<open>Version 2, 7) \<^verbatim>\<open>initExternalLinks\<close>\<close>

definition harden_rel_v2 :: "string option \<Rightarrow> string" where
  "harden_rel_v2 r =
     (let rel = toLowerCase (case r of None \<Rightarrow> [] | Some v \<Rightarrow> v);
          need = [''noopener'', ''noreferrer''];
          relSet = new_Set (filter_Boolean (split_space rel));
          relSet' = foldl set_add relSet need
      in join '' '' relSet')"

definition target_blank_v2 :: "anchor \<Rightarrow> bool" where
  "target_blank_v2 a = (case a_target a of None \<Rightarrow> False | Some v \<Rightarrow> ascii_lower v = ''_blank'')"

definition harden_link_v2 :: "anchor \<Rightarrow> anchor" where
  "harden_link_v2 a = (if target_blank_v2 a then a\<lparr>a_rel := Some (harden_rel_v2 (a_rel a))\<rparr> else a)"

definition initExternalLinks_v2 :: "anchor list \<Rightarrow> anchor list" where
  "initExternalLinks_v2 links = map harden_link_v2 links"

subsection \<open>Version 2, 8) \<^verbatim>\<open>initAmazonMetaChip\<close>\<close>

definition is_amazon_btn_v2 :: "element \<Rightarrow> bool" where
  "is_amazon_btn_v2 e = (''btn'' \<in> set (snd (snd e)) \<and> ''btn--amazon'' \<in> set (snd (snd e)))"

definition has_btn_meta_v2 :: "element \<Rightarrow> bool" where
  "has_btn_meta_v2 e = (''btn-meta'' \<in> set (snd (snd e)))"

definition chip_v2 :: "nat \<Rightarrow> node" where
  "chip_v2 w = Node w ''span'' [''btn-meta''] [Node (Suc w) ''#text Amazon.ca'' [] []]"

definition chip_button_v2 :: "nat \<Rightarrow> node \<Rightarrow> node" where
  "chip_button_v2 b d =
     (case find_node b d of
        None \<Rightarrow> d
      | Some btn \<Rightarrow>
          (case querySelector has_btn_meta_v2 btn of
             Some hasChip \<Rightarrow> d
           | None \<Rightarrow> appendChild b (chip_v2 (fresh_id d)) d))"

definition initAmazonMetaChip_v2 :: "node \<Rightarrow> node" where
  "initAmazonMetaChip_v2 d = fold chip_button_v2 (query_all is_amazon_btn_v2 d) d"

section \<open>Properties\<close>

subsection \<open>Frame lemmas\<close>

lemma safeFocus_frame:
  "drawer_data_open (safeFocus el s) = drawer_data_open s"
  "scrim_data_open (safeFocus el s) = scrim_data_open s"
  "btn_aria_expanded (safeFocus el s) = btn_aria_expanded s"
  "win_scrollY (safeFocus el s) = win_scrollY s"
  "win_scrollMax (safeFocus el s) = win_scrollMax s"
  "lock_y (safeFocus el s) = lock_y s"
  "body_style (safeFocus el s) = body_style s"
  "css_parse (safeFocus el s) = css_parse s"
  "ignoreClick (safeFocus el s) = ignoreClick s"
  "timers (safeFocus el s) = timers s"
  "now (safeFocus el s) = now s"
  by (simp_all add: safeFocus_def split: option.splits)

lemma set_style_frame:
  "drawer_data_open (set_body_style p v s) = drawer_data_open s"
  "scrim_data_open (set_body_style p v s) = scrim_data_open s"
  "btn_aria_expanded (set_body_style p v s) = btn_aria_expanded s"
  "ignoreClick (set_body_style p v s) = ignoreClick s"
  "timers (set_body_style p v s) = timers s"
  "now (set_body_style p v s) = now s"
  "lock_y (set_body_style p v s) = lock_y s"
  "win_scrollY (set_body_style p v s) = win_scrollY s"
  "win_scrollMax (set_body_style p v s) = win_scrollMax s"
  "css_parse (set_body_style p v s) = css_parse s"
  "drawer_data_open (set_html_style p v s) = drawer_data_open s"
  "scrim_data_open (set_html_style p v s) = scrim_data_open s"
  "btn_aria_expanded (set_html_style p v s) = btn_aria_expanded s"
  "ignoreClick (set_html_style p v s) = ignoreClick s"
  "timers (set_html_style p v s) = timers s"
  "now (set_html_style p v s) = now s"
  "lock_y (set_html_style p v s) = lock_y s"
  "win_scrollY (set_html_style p v s) = win_scrollY s"
  "win_scrollMax (set_html_style p v s) = win_scrollMax s"
  "css_parse (set_html_style p v s) = css_parse s"
  "body_style (set_html_style p v s) = body_style s"
  by (simp_all add: set_body_style_def set_html_style_def)

lemma scrollLock_lock_frame:
  "drawer_data_open (scrollLock_lock s) = drawer_data_open s"
  "scrim_data_open (scrollLock_lock s) = scrim_data_open s"
  "btn_aria_expanded (scrollLock_lock s) = btn_aria_expanded s"
  "ignoreClick (scrollLock_lock s) = ignoreClick s"
  "timers (scrollLock_lock s) = timers s"
  "now (scrollLock_lock s) = now s"
  by (simp_all add: scrollLock_lock_def Let_def set_style_frame)

lemma scrollLock_unlock_frame:
  "drawer_data_open (scrollLock_unlock s) = drawer_data_open s"
  "scrim_data_open (scrollLock_unlock s) = scrim_data_open s"
  "btn_aria_expanded (scrollLock_unlock s) = btn_aria_expanded s"
  "ignoreClick (scrollLock_unlock s) = ignoreClick s"
  "timers (scrollLock_unlock s) = timers s"
  "now (scrollLock_unlock s) = now s"
  by (simp_all add: scrollLock_unlock_def window_scrollTo_def Let_def set_style_frame)

lemma setOpen_attrs:
  "drawer_data_open (setOpen b s) = Some (bool_attr b)"
  "scrim_data_open (setOpen b s) = Some (bool_attr b)"
  "btn_aria_expanded (setOpen b s) = Some (bool_attr b)"
  by (simp_all add: setOpen_def Let_def safeFocus_frame scrollLock_lock_frame
      scrollLock_unlock_frame)

subsection \<open>C2: what \<^verbatim>\<open>setOpen\<close> writes\<close>

text \<open>
  Claim C2. With the toggle, the drawer and the scrim present, \<^verbatim>\<open>setOpen(true)\<close>
  leaves the drawer's and the scrim's \<^verbatim>\<open>data-open\<close> and the toggle's
  \<^verbatim>\<open>aria-expanded\<close> at \<^verbatim>\<open>"true"\<close>, and \<^verbatim>\<open>setOpen(false)\<close> leaves all three at
  \<^verbatim>\<open>"false"\<close>, from every page state.
\<close>

theorem C2_setOpen_sets_attributes:
  "drawer_data_open (setOpen True s) = Some ''true'' \<and>
   scrim_data_open (setOpen True s) = Some ''true'' \<and>
   btn_aria_expanded (setOpen True s) = Some ''true'' \<and>
   drawer_data_open (setOpen False s) = Some ''false'' \<and>
   scrim_data_open (setOpen False s) = Some ''false'' \<and>
   btn_aria_expanded (setOpen False s) = Some ''false''"
  by (simp add: setOpen_attrs bool_attr_def)

theorem C2_setOpen_sets_attributes_witness:
  "drawer_data_open (setOpen True page0) = Some ''true'' \<and>
   scrim_data_open (setOpen True page0) = Some ''true'' \<and>
   btn_aria_expanded (setOpen True page0) = Some ''true'' \<and>
   drawer_data_open (setOpen False page0) = Some ''false'' \<and>
   scrim_data_open (setOpen False page0) = Some ''false'' \<and>
   btn_aria_expanded (setOpen False page0) = Some ''false''"
  using C2_setOpen_sets_attributes [of page0] .

subsection \<open>C3: lock, then unlock\<close>

lemma body_style_set:
  "body_style (set_body_style p v s) q
     = (if q = p then (if v = [] then None
                       else case css_parse s p v of None \<Rightarrow> body_style s p | Some w \<Rightarrow> Some w)
        else body_style s q)"
  by (simp add: set_body_style_def style_set_def split: option.splits)

lemma scrollLock_lock_fields:
  "lock_y (scrollLock_lock s) = num_or (num_or (win_scrollY s) (html_scrollTop s)) 0"
  "q \<notin> set locked_props \<Longrightarrow> body_style (scrollLock_lock s) q = body_style s q"
  "css_parse s ''position'' ''fixed'' = Some w \<Longrightarrow> body_style (scrollLock_lock s) ''position'' = Some w"
  by (simp_all add: scrollLock_lock_def Let_def set_style_frame body_style_set locked_props_def)

lemma scrollLock_unlock_fields:
  "win_scrollY (scrollLock_unlock s) = max 0 (min (lock_y s) (win_scrollMax s))"
  "list_all (\<lambda>q. body_style (scrollLock_unlock s) q = None) locked_props"
  "lock_y (scrollLock_unlock s) = 0"
  by (simp_all add: scrollLock_unlock_def window_scrollTo_def Let_def num_or_def
      set_style_frame body_style_set locked_props_def)

lemma setOpen_False_fields:
  "win_scrollY (setOpen False t) = max 0 (min (lock_y t) (win_scrollMax t))"
  "list_all (\<lambda>q. body_style (setOpen False t) q = None) locked_props"
  by (simp_all add: setOpen_def Let_def safeFocus_frame scrollLock_unlock_fields)

text \<open>
  Claim C3, as the code and the browser have it. From every page state \<open>s\<close>,
  \<^verbatim>\<open>scrollLock.lock\<close> records \<^verbatim>\<open>window.scrollY || documentElement.scrollTop || 0\<close>,
  which is the scroll position \<^verbatim>\<open>window.scrollY\<close> itself whenever the second reading
  agrees with the first or is \<open>0\<close>; it writes to \<^verbatim>\<open>position\<close>, \<^verbatim>\<open>top\<close>, \<^verbatim>\<open>left\<close>,
  \<^verbatim>\<open>right\<close> and \<^verbatim>\<open>width\<close> of the body style and to no other property of it, and
  the body is fixed when the browser takes \<^verbatim>\<open>fixed\<close> for \<^verbatim>\<open>position\<close>. Whatever
  the browser does meanwhile to the two scroll readings and to the scroll range (they
  become \<open>z\<close>, \<open>z'\<close> and \<open>0\<close> to \<open>m\<close>), \<^verbatim>\<open>scrollLock.unlock\<close> then removes each of
  the five declarations and scrolls the page to the recorded offset brought into the
  scroll range: to exactly the recorded offset when that lies between \<open>0\<close> and \<open>m\<close>.
  The same holds for the drawer: \<^verbatim>\<open>setOpen(true)\<close>, then \<^verbatim>\<open>setOpen(false)\<close>.
\<close>

theorem C3_lock_unlock_restores_scroll:
  fixes s :: page and z z' m :: int and p w :: string
  defines "after_lock \<equiv> scrollLock_lock s"
  defines "after_unlock \<equiv>
    scrollLock_unlock (after_lock\<lparr>win_scrollY := z, html_scrollTop := z', win_scrollMax := m\<rparr>)"
  defines "after_close \<equiv>
    setOpen False ((setOpen True s)\<lparr>win_scrollY := z, html_scrollTop := z', win_scrollMax := m\<rparr>)"
  shows
  "lock_y after_lock = num_or (num_or (win_scrollY s) (html_scrollTop s)) 0 \<and>
   (html_scrollTop s = win_scrollY s \<or> html_scrollTop s = 0 \<longrightarrow> lock_y after_lock = win_scrollY s) \<and>
   (p \<notin> set locked_props \<longrightarrow> body_style after_lock p = body_style s p) \<and>
   (css_parse s ''position'' ''fixed'' = Some w \<longrightarrow> body_style after_lock ''position'' = Some w) \<and>
   win_scrollY after_unlock = max 0 (min (lock_y after_lock) m) \<and>
   (0 \<le> lock_y after_lock \<and> lock_y after_lock \<le> m \<longrightarrow> win_scrollY after_unlock = lock_y after_lock) \<and>
   list_all (\<lambda>q. body_style after_unlock q = None) locked_props \<and>
   win_scrollY after_close = max 0 (min (lock_y after_lock) m) \<and>
   (0 \<le> lock_y after_lock \<and> lock_y after_lock \<le> m \<longrightarrow> win_scrollY after_close = lock_y after_lock) \<and>
   list_all (\<lambda>q. body_style after_close q = None) locked_props"
proof -
  have rec: "lock_y after_lock = num_or (num_or (win_scrollY s) (html_scrollTop s)) 0"
    by (simp add: after_lock_def scrollLock_lock_fields)
  have same: "html_scrollTop s = win_scrollY s \<or> html_scrollTop s = 0 \<longrightarrow> lock_y after_lock = win_scrollY s"
    by (auto simp: rec num_or_def)
  have lk: "p \<notin> set locked_props \<longrightarrow> body_style after_lock p = body_style s p"
    "css_parse s ''position'' ''fixed'' = Some w \<longrightarrow> body_style after_lock ''position'' = Some w"
    by (simp_all add: after_lock_def scrollLock_lock_fields)
  have ul: "win_scrollY after_unlock = max 0 (min (lock_y after_lock) m)"
    "list_all (\<lambda>q. body_style after_unlock q = None) locked_props"
    by (simp_all add: after_unlock_def scrollLock_unlock_fields)
  have opened: "lock_y (setOpen True s) = lock_y after_lock"
    by (simp add: setOpen_def Let_def safeFocus_frame after_lock_def scrollLock_lock_fields)
  have cl: "win_scrollY after_close = max 0 (min (lock_y after_lock) m)"
    "list_all (\<lambda>q. body_style after_close q = None) locked_props"
    by (simp_all add: after_close_def setOpen_False_fields opened)
  have exact: "0 \<le> y \<and> y \<le> m \<longrightarrow> max 0 (min y m) = y" for y :: int
    by auto
  from rec same lk ul cl exact [of "lock_y after_lock"] show ?thesis by simp
qed

theorem C3_lock_unlock_restores_scroll_witness:
  "(html_scrollTop page0 = win_scrollY page0 \<or> html_scrollTop page0 = 0) \<and>
   ''color'' \<notin> set locked_props \<and>
   css_parse page0 ''position'' ''fixed'' = Some ''fixed'' \<and>
   lock_y (scrollLock_lock page0) = 120 \<and> (0 :: int) \<le> 120 \<and> (120 :: int) \<le> 2000 \<and>
   body_style (scrollLock_lock page0) ''color'' = None \<and>
   body_style (scrollLock_lock page0) ''position'' = Some ''fixed'' \<and>
   win_scrollY (scrollLock_unlock
     ((scrollLock_lock page0)\<lparr>win_scrollY := 0, html_scrollTop := 0, win_scrollMax := 2000\<rparr>)) = 120 \<and>
   win_scrollY (setOpen False
     ((setOpen True page0)\<lparr>win_scrollY := 0, html_scrollTop := 0, win_scrollMax := 2000\<rparr>)) = 120 \<and>
   body_style (setOpen False
     ((setOpen True page0)\<lparr>win_scrollY := 0, html_scrollTop := 0, win_scrollMax := 2000\<rparr>)) ''top'' = None"
proof -
  have h: "html_scrollTop page0 = win_scrollY page0" by (simp add: page0_def)
  have y: "win_scrollY page0 = 120" by (simp add: page0_def)
  have c: "''color'' \<notin> set locked_props" by (simp add: locked_props_def)
  have f: "css_parse page0 ''position'' ''fixed'' = Some ''fixed''"
    by (simp add: page0_def css_sample_def)
  have b: "body_style page0 ''color'' = None" by (simp add: page0_def)
  have n: "num_or (num_or 120 120) 0 = 120" by (simp add: num_or_def)
  from C3_lock_unlock_restores_scroll
         [where s = page0 and p = "''color''" and w = "''fixed''" and z = 0 and z' = 0 and m = 2000] h y c f b n
  show ?thesis by (simp add: locked_props_def)
qed

text \<open>
  Claim C3 as stated restores the recorded position for every starting position. A touch
  browser reports a negative \<^verbatim>\<open>scrollY\<close> while the page is pulled beyond its top; the
  lock records it, and \<^verbatim>\<open>window.scrollTo\<close> cannot reach it: the page ends at \<open>0\<close>.
\<close>

theorem C3_overscroll_counterexample:
  "win_scrollY page_overscrolled = - 5 \<and>
   lock_y (scrollLock_lock page_overscrolled) = - 5 \<and>
   win_scrollY (scrollLock_unlock (scrollLock_lock page_overscrolled)) = 0 \<and>
   win_scrollY (setOpen False (setOpen True page_overscrolled)) = 0"
proof -
  have p: "win_scrollY page_overscrolled = - 5" "html_scrollTop page_overscrolled = - 5"
    "win_scrollMax page_overscrolled = 2000"
    by (simp_all add: page_overscrolled_def page0_def)
  then have l: "lock_y (scrollLock_lock page_overscrolled) = - 5"
    by (simp add: scrollLock_lock_fields num_or_def)
  have m: "win_scrollMax (scrollLock_lock page_overscrolled) = 2000"
    "win_scrollMax (setOpen True page_overscrolled) = 2000"
    using p by (simp_all add: scrollLock_lock_def setOpen_def Let_def set_style_frame safeFocus_frame)
  have o: "lock_y (setOpen True page_overscrolled) = - 5"
    using p by (simp add: setOpen_def Let_def safeFocus_frame scrollLock_lock_fields num_or_def)
  from p l m o show ?thesis
    by (simp add: scrollLock_unlock_fields setOpen_False_fields)
qed

subsection \<open>C1: external-link hardening\<close>












lemma set_foldl_set_add: "set (foldl set_add acc xs) = set acc \<union> set xs"
  by (induction xs arbitrary: acc) (auto simp: set_add_def)


























subsection \<open>C4: a click on a same-page hash link\<close>






subsection \<open>C7: copy-link buttons\<close>

lemma add_copylink_idem: "add_copylink (add_copylink h) = add_copylink h"
  by (simp add: add_copylink_def)

lemma h2_h3_id_add_copylink: "h2_h3_id (add_copylink h) = h2_h3_id h"
  by (simp add: add_copylink_def h2_h3_id_def)

lemma initCopyLinks_True: "initCopyLinks True hs = forEach_matching h2_h3_id add_copylink hs"
proof (cases "filter h2_h3_id hs = []")
  case True
  then have "\<forall>h\<in>set hs. \<not> h2_h3_id h" by (simp add: filter_empty_conv)
  then have "forEach_matching h2_h3_id add_copylink hs = hs"
    by (simp add: forEach_matching_def map_idI)
  with True show ?thesis by (simp add: initCopyLinks_def)
next
  case False
  then show ?thesis by (simp add: initCopyLinks_def)
qed

lemma initCopyLinks_idem: "initCopyLinks True (initCopyLinks True hs) = initCopyLinks True hs"
  by (simp add: initCopyLinks_True forEach_matching_def add_copylink_idem h2_h3_id_add_copylink)

text \<open>
  Claim C7, as the code has it. When \<^verbatim>\<open>navigator.clipboard\<close> exists, the pass appends
  exactly one button, as last child, to every heading of level 2 or 3 that has an
  identifier and is not yet marked, and marks it \<^verbatim>\<open>done\<close>; a heading already marked is
  left as it is, and so are a heading of another level and a heading without identifier;
  running the pass again changes nothing, so no second button is appended. Without
  \<^verbatim>\<open>navigator.clipboard\<close> the pass changes nothing at all.
\<close>

theorem C7_copy_links:
  assumes "i < length hs"
  shows
    "((h_level (hs ! i) = 2 \<or> h_level (hs ! i) = 3) \<and> h_id (hs ! i) \<noteq> None \<and>
      h_copylink (hs ! i) \<noteq> Some ''done'' \<longrightarrow>
        h_childNodes (initCopyLinks True hs ! i) = h_childNodes (hs ! i) @ [Button copylink_btn] \<and>
        h_copylink (initCopyLinks True hs ! i) = Some ''done'' \<and>
        h_id (initCopyLinks True hs ! i) = h_id (hs ! i) \<and>
        h_level (initCopyLinks True hs ! i) = h_level (hs ! i)) \<and>
     (h_copylink (hs ! i) = Some ''done'' \<longrightarrow> initCopyLinks True hs ! i = hs ! i) \<and>
     (h_level (hs ! i) \<noteq> 2 \<and> h_level (hs ! i) \<noteq> 3 \<longrightarrow> initCopyLinks True hs ! i = hs ! i) \<and>
     (h_id (hs ! i) = None \<longrightarrow> initCopyLinks True hs ! i = hs ! i) \<and>
     length (initCopyLinks True hs) = length hs \<and>
     initCopyLinks True (initCopyLinks True hs) = initCopyLinks True hs \<and>
     initCopyLinks False hs = hs"
proof -
  have "initCopyLinks False hs = hs" by (simp add: initCopyLinks_def)
  with assms show ?thesis
    by (simp add: initCopyLinks_idem)
       (auto simp: initCopyLinks_True forEach_matching_def add_copylink_def h2_h3_id_def)
qed

theorem C7_copy_links_witness:
  "h_level heading0 = 2 \<and> h_id heading0 \<noteq> None \<and> h_copylink heading0 \<noteq> Some ''done'' \<and>
   h_id heading1 = None \<and> h_level heading4 \<noteq> 2 \<and> h_level heading4 \<noteq> 3 \<and>
   h_childNodes (initCopyLinks True [heading0, heading1, heading4] ! 0)
     = [Content ''Specs'', Button copylink_btn] \<and>
   h_copylink (initCopyLinks True [heading0, heading1, heading4] ! 0) = Some ''done'' \<and>
   initCopyLinks True [heading0, heading1, heading4] ! 1 = heading1 \<and>
   initCopyLinks True [heading0, heading1, heading4] ! 2 = heading4 \<and>
   initCopyLinks True (initCopyLinks True [heading0, heading1, heading4])
     = initCopyLinks True [heading0, heading1, heading4]"
proof -
  let ?hs = "[heading0, heading1, heading4]"
  have a: "h_level heading0 = 2" "h_id heading0 \<noteq> None" "h_copylink heading0 \<noteq> Some ''done''"
    "h_id heading1 = None" "h_level heading4 \<noteq> 2" "h_level heading4 \<noteq> 3"
    "h_childNodes heading0 = [Content ''Specs'']"
    by (simp_all add: heading0_def heading1_def heading4_def)
  from C7_copy_links [of 0 ?hs] a
  have b: "h_childNodes (initCopyLinks True ?hs ! 0) = [Content ''Specs'', Button copylink_btn]"
    "h_copylink (initCopyLinks True ?hs ! 0) = Some ''done''"
    "initCopyLinks True (initCopyLinks True ?hs) = initCopyLinks True ?hs"
    by simp_all
  from C7_copy_links [of 1 ?hs] a have c: "initCopyLinks True ?hs ! 1 = heading1" by simp
  from C7_copy_links [of 2 ?hs] a have d: "initCopyLinks True ?hs ! 2 = heading4" by simp
  from a b c d show ?thesis by blast
qed

text \<open>
  Claim C7 as stated has the pass append a button to every unprocessed heading with an
  identifier. The pass starts with \<^verbatim>\<open>if (!navigator.clipboard) return\<close>: without
  clipboard access a second-level heading with an identifier gets no button and no
  marker. And the pass selects \<^verbatim>\<open>h2[id], h3[id]\<close> only: with clipboard access, an
  unprocessed fourth-level heading with an identifier gets no button and no marker either.
\<close>

theorem C7_no_clipboard_counterexample:
  "h_id heading0 \<noteq> None \<and> h_copylink heading0 \<noteq> Some ''done'' \<and>
   h_childNodes (initCopyLinks False [heading0] ! 0) = [Content ''Specs''] \<and>
   h_copylink (initCopyLinks False [heading0] ! 0) = None \<and>
   h_id heading4 \<noteq> None \<and> h_copylink heading4 \<noteq> Some ''done'' \<and>
   h_childNodes (initCopyLinks True [heading4] ! 0) = [Content ''Warranty''] \<and>
   h_copylink (initCopyLinks True [heading4] ! 0) = None"
  by (simp add: initCopyLinks_def h2_h3_id_def heading0_def heading4_def forEach_matching_def)

subsection \<open>C8: lazy iframes\<close>

lemma load_idem: "load (load el) = load el"
  by (simp add: load_def)

lemma load_loaded: "f_loaded el = Some ''true'' \<Longrightarrow> load el = el"
  by (simp add: load_def)

lemma load_fields:
  "f_loaded (load el) = Some ''true''"
  "f_data_src (load el) = f_data_src el"
  "f_loaded el \<noteq> Some ''true'' \<Longrightarrow> f_data_src el = Some d \<Longrightarrow> f_src (load el) = Some d"
  by (simp_all add: load_def)

lemma length_load_at: "length (load_at i fs) = length fs"
  by (simp add: load_at_def)

lemma nth_load_at:
  "j < length fs \<Longrightarrow> load_at i fs ! j = (if i = j then load (fs ! j) else fs ! j)"
  by (simp add: load_at_def nth_list_update)

lemma lazy_callback_frames:
  "i < length (lz_frames z) \<Longrightarrow>
   length (lz_frames (lazy_callback entries z)) = length (lz_frames z) \<and>
   lz_frames (lazy_callback entries z) ! i
     = (if hits entries i then load (lz_frames z ! i) else lz_frames z ! i)"
proof (induction entries arbitrary: z)
  case Nil
  show ?case by (simp add: lazy_callback_def hits_def)
next
  case (Cons e es)
  let ?z = "lazy_entry e z"
  have len: "length (lz_frames ?z) = length (lz_frames z)"
    by (simp add: lazy_entry_def length_load_at)
  have nth: "lz_frames ?z ! i
      = (if isIntersecting e \<and> target e = i then load (lz_frames z ! i) else lz_frames z ! i)"
    using Cons.prems by (auto simp: lazy_entry_def nth_load_at)
  have "lazy_callback (e # es) z = lazy_callback es ?z"
    by (simp add: lazy_callback_def)
  with Cons.IH [of ?z] Cons.prems len nth show ?case
    by (auto simp: hits_def load_idem)
qed

lemma lazy_callback_observed:
  "lz_observed (lazy_callback entries z) = filter (\<lambda>j. \<not> hits entries j) (lz_observed z)"
proof (induction entries arbitrary: z)
  case Nil
  show ?case by (simp add: lazy_callback_def hits_def)
next
  case (Cons e es)
  have "lazy_callback (e # es) z = lazy_callback es (lazy_entry e z)"
    by (simp add: lazy_callback_def)
  with Cons.IH [of "lazy_entry e z"] show ?case
    by (auto simp: hits_def lazy_entry_def removeAll_filter_not_eq intro: filter_cong)
qed

lemma lazy_callback_observer:
  "lz_observer (lazy_callback entries z) = lz_observer z"
proof (induction entries arbitrary: z)
  case Nil
  show ?case by (simp add: lazy_callback_def)
next
  case (Cons e es)
  have "lazy_callback (e # es) z = lazy_callback es (lazy_entry e z)"
    by (simp add: lazy_callback_def)
  with Cons.IH [of "lazy_entry e z"] show ?case
    by (simp add: lazy_entry_def)
qed

lemma initLazyIframes_unsupported:
  "initLazyIframes False fs
     = \<lparr>lz_frames = forEach_matching has_data_src load fs, lz_observer = None, lz_observed = []\<rparr>"
proof (cases "filter has_data_src fs = []")
  case True
  then have "\<forall>f\<in>set fs. \<not> has_data_src f" by (simp add: filter_empty_conv)
  then have "forEach_matching has_data_src load fs = fs"
    by (simp add: forEach_matching_def map_idI)
  with True show ?thesis by (simp add: initLazyIframes_def)
next
  case False
  then show ?thesis by (simp add: initLazyIframes_def)
qed

lemma initLazyIframes_supported:
  "lz_frames (initLazyIframes True fs) = fs"
  "set (lz_observed (initLazyIframes True fs)) = {i. i < length fs \<and> has_data_src (fs ! i)}"
proof -
  show "lz_frames (initLazyIframes True fs) = fs" by (simp add: initLazyIframes_def)
  have "filter has_data_src fs = [] \<Longrightarrow> {i. i < length fs \<and> has_data_src (fs ! i)} = {}"
    by (auto simp: filter_empty_conv)
  then show "set (lz_observed (initLazyIframes True fs)) = {i. i < length fs \<and> has_data_src (fs ! i)}"
    by (auto simp: initLazyIframes_def set_foldl_set_add selected_def)
qed

text \<open>
  Claim C8, as the code has it. Let the iframe at position \<open>i\<close> carry \<^verbatim>\<open>data-src\<close> with
  value \<open>d\<close>. Without intersection observation, initialisation marks it loaded and, unless
  it was marked loaded before, assigns \<open>d\<close> to \<^verbatim>\<open>src\<close>; no observer is created. With
  intersection observation, initialisation assigns nothing, creates the observer on the
  viewport with margin \<^verbatim>\<open>200px 0px\<close> and threshold \<^verbatim>\<open>0.01\<close>, and observes the iframe; a
  later notification that reports it as intersecting marks it loaded, assigns \<open>d\<close> to
  \<^verbatim>\<open>src\<close> unless it was marked loaded before, and removes it from the observed elements,
  while a notification that does not report it as intersecting leaves the iframe and its
  observation as they are. An iframe that was marked loaded before is left as it is by
  the initialisation and by every notification: its \<^verbatim>\<open>src\<close> is not assigned. Loading
  an iframe that is marked loaded changes nothing, so loading twice is loading once.
\<close>

theorem C8_lazy_iframes:
  assumes i: "i < length fs" and d: "f_data_src (fs ! i) = Some d"
    and z: "lz_frames z = fs"
  shows
    "f_loaded (lz_frames (initLazyIframes False fs) ! i) = Some ''true'' \<and>
     (f_loaded (fs ! i) \<noteq> Some ''true'' \<longrightarrow> f_src (lz_frames (initLazyIframes False fs) ! i) = Some d) \<and>
     (f_loaded (fs ! i) = Some ''true'' \<longrightarrow> lz_frames (initLazyIframes False fs) ! i = fs ! i) \<and>
     lz_observed (initLazyIframes False fs) = [] \<and>
     lz_observer (initLazyIframes False fs) = None \<and>
     lz_frames (initLazyIframes True fs) = fs \<and>
     lz_observer (initLazyIframes True fs)
       = Some \<lparr>io_rootMargin = ''200px 0px'', io_threshold = 1 / 100\<rparr> \<and>
     i \<in> set (lz_observed (initLazyIframes True fs)) \<and>
     (hits entries i \<longrightarrow>
        f_loaded (lz_frames (lazy_callback entries z) ! i) = Some ''true'' \<and>
        (f_loaded (fs ! i) \<noteq> Some ''true'' \<longrightarrow> f_src (lz_frames (lazy_callback entries z) ! i) = Some d) \<and>
        (f_loaded (fs ! i) = Some ''true'' \<longrightarrow> lz_frames (lazy_callback entries z) ! i = fs ! i) \<and>
        i \<notin> set (lz_observed (lazy_callback entries z))) \<and>
     (\<not> hits entries i \<longrightarrow>
        lz_frames (lazy_callback entries z) ! i = fs ! i \<and>
        (i \<in> set (lz_observed (lazy_callback entries z)) \<longleftrightarrow> i \<in> set (lz_observed z))) \<and>
     lz_observer (lazy_callback entries z) = lz_observer z \<and>
     load (load (fs ! i)) = load (fs ! i) \<and>
     (f_loaded (fs ! i) = Some ''true'' \<longrightarrow> load (fs ! i) = fs ! i)"
proof -
  have sel: "has_data_src (fs ! i)" using d by (simp add: has_data_src_def)
  have ne: "filter has_data_src fs \<noteq> []"
    using i sel by (auto simp: filter_empty_conv)
  have u: "lz_frames (initLazyIframes False fs) ! i = load (fs ! i)"
    using i sel by (simp add: initLazyIframes_unsupported forEach_matching_def)
  have u2: "lz_observed (initLazyIframes False fs) = []"
    "lz_observer (initLazyIframes False fs) = None"
    by (simp_all add: initLazyIframes_unsupported)
  have s: "i \<in> set (lz_observed (initLazyIframes True fs))"
    using i sel by (simp add: initLazyIframes_supported)
  have s2: "lz_observer (initLazyIframes True fs)
       = Some \<lparr>io_rootMargin = ''200px 0px'', io_threshold = 1 / 100\<rparr>"
    using ne by (simp add: initLazyIframes_def)
  have c: "lz_frames (lazy_callback entries z) ! i = (if hits entries i then load (fs ! i) else fs ! i)"
    using lazy_callback_frames [of i z entries] i z by simp
  have o: "i \<in> set (lz_observed (lazy_callback entries z)) \<longleftrightarrow> i \<in> set (lz_observed z) \<and> \<not> hits entries i"
    by (auto simp: lazy_callback_observed)
  from u u2 s s2 c o d show ?thesis
    by (simp add: load_fields load_idem load_loaded initLazyIframes_supported lazy_callback_observer)
qed

theorem C8_lazy_iframes_witness:
  "f_data_src ([iframe0, iframe1] ! 0) = Some ''https://www.youtube.com/embed/x'' \<and>
   hits [entry_at True 0, entry_at False 1] 0 \<and> \<not> hits [entry_at True 0, entry_at False 1] 1 \<and>
   f_src (lz_frames (initLazyIframes False [iframe0, iframe1]) ! 0) = Some ''https://www.youtube.com/embed/x'' \<and>
   f_loaded (lz_frames (initLazyIframes False [iframe0, iframe1]) ! 0) = Some ''true'' \<and>
   f_src (lz_frames (lazy_callback [entry_at True 0, entry_at False 1]
      (initLazyIframes True [iframe0, iframe1])) ! 0) = Some ''https://www.youtube.com/embed/x'' \<and>
   0 \<notin> set (lz_observed (lazy_callback [entry_at True 0, entry_at False 1]
      (initLazyIframes True [iframe0, iframe1]))) \<and>
   lz_frames (lazy_callback [entry_at True 0, entry_at False 1]
      (initLazyIframes True [iframe0, iframe1])) ! 1 = iframe1 \<and>
   1 \<in> set (lz_observed (lazy_callback [entry_at True 0, entry_at False 1]
      (initLazyIframes True [iframe0, iframe1]))) \<and>
   f_loaded ([iframe_marked] ! 0) = Some ''true'' \<and>
   lz_frames (initLazyIframes False [iframe_marked]) ! 0 = iframe_marked"
proof -
  let ?fs = "[iframe0, iframe1]" and ?es = "[entry_at True 0, entry_at False 1]"
  have d: "f_data_src (?fs ! 0) = Some ''https://www.youtube.com/embed/x''"
    "f_data_src (?fs ! 1) = Some ''https://www.youtube.com/embed/y''"
    "f_data_src ([iframe_marked] ! 0) = Some ''https://www.youtube.com/embed/z''"
    by (simp_all add: iframe0_def iframe1_def iframe_marked_def)
  have l: "f_loaded (?fs ! 0) \<noteq> Some ''true''" "f_loaded ([iframe_marked] ! 0) = Some ''true''"
    by (simp_all add: iframe0_def iframe_marked_def)
  have h: "hits ?es 0" "\<not> hits ?es 1" by (simp_all add: hits_def entry_at_def)
  have z: "lz_frames (initLazyIframes True ?fs) = ?fs" by (simp add: initLazyIframes_def)
  have o: "1 \<in> set (lz_observed (initLazyIframes True ?fs))"
    using C8_lazy_iframes [of 1 ?fs _ "initLazyIframes True ?fs" ?es, OF _ d(2) z] by simp
  from C8_lazy_iframes [of 0 ?fs _ "initLazyIframes True ?fs" ?es, OF _ d(1) z] d l h
  have a: "f_src (lz_frames (initLazyIframes False ?fs) ! 0) = Some ''https://www.youtube.com/embed/x''"
    "f_loaded (lz_frames (initLazyIframes False ?fs) ! 0) = Some ''true''"
    "f_src (lz_frames (lazy_callback ?es (initLazyIframes True ?fs)) ! 0)
       = Some ''https://www.youtube.com/embed/x''"
    "0 \<notin> set (lz_observed (lazy_callback ?es (initLazyIframes True ?fs)))"
    by simp_all
  from C8_lazy_iframes [of 1 ?fs _ "initLazyIframes True ?fs" ?es, OF _ d(2) z] h o
  have b: "lz_frames (lazy_callback ?es (initLazyIframes True ?fs)) ! 1 = iframe1"
    "1 \<in> set (lz_observed (lazy_callback ?es (initLazyIframes True ?fs)))"
    by simp_all
  from C8_lazy_iframes [of 0 "[iframe_marked]" _ "initLazyIframes True [iframe_marked]" "[]", OF _ d(3)] l
  have c: "lz_frames (initLazyIframes False [iframe_marked]) ! 0 = iframe_marked"
    by (simp add: initLazyIframes_def)
  from d(1) h a b l(2) c show ?thesis by blast
qed

text \<open>
  Claim C8 as stated has the source assigned for every iframe that carries \<^verbatim>\<open>data-src\<close>.
  \<^verbatim>\<open>load\<close> starts with \<^verbatim>\<open>if (el.dataset.loaded === "true") return\<close>: an iframe that
  carries \<^verbatim>\<open>data-src\<close> and is already marked loaded in the markup gets no \<^verbatim>\<open>src\<close>,
  neither at initialisation without intersection observation nor when the observer
  reports it as intersecting.
\<close>

theorem C8_premarked_counterexample:
  "f_data_src iframe_marked = Some ''https://www.youtube.com/embed/z'' \<and>
   f_src iframe_marked = None \<and>
   f_src (lz_frames (initLazyIframes False [iframe_marked]) ! 0) = None \<and>
   lz_observed (initLazyIframes True [iframe_marked]) = [0] \<and>
   hits [entry_at True 0] 0 \<and>
   f_src (lz_frames (lazy_callback [entry_at True 0] (initLazyIframes True [iframe_marked])) ! 0)
     = None \<and>
   lz_observed (lazy_callback [entry_at True 0] (initLazyIframes True [iframe_marked])) = []"
  by (simp add: iframe_marked_def initLazyIframes_def has_data_src_def forEach_matching_def
      load_def selected_def set_add_def lazy_callback_def lazy_entry_def load_at_def
      entry_at_def hits_def)

subsection \<open>C5: the active-section highlighter\<close>

lemma fold_map_push:
  "fold (map_push ls) is m ident =
     (case filter (\<lambda>i. fragment (ls ! i) = ident) is of
        [] \<Rightarrow> m ident
      | l \<Rightarrow> Some ((case m ident of Some l0 \<Rightarrow> l0 | None \<Rightarrow> []) @ l))"
proof (induction "is" arbitrary: m)
  case Nil
  show ?case by simp
next
  case (Cons i "is")
  show ?case
    by (simp add: Cons.IH) (auto simp: map_push_def Let_def split: list.splits option.splits)
qed

lemma build_map_eq:
  "(case build_map ls ident of Some l \<Rightarrow> l | None \<Rightarrow> [])
     = filter (\<lambda>i. fragment (ls ! i) = ident) [0..<length ls]"
  by (simp add: build_map_def fold_map_push split: list.splits)

lemma length_add_active_at: "length (add_active_at i ls) = length ls"
  by (simp add: add_active_at_def)

lemma add_active_idem: "add_active (add_active a) = add_active a"
  by (simp add: add_active_def set_add_def)

lemma fold_add_active_at:
  "length (fold add_active_at is ls) = length ls \<and>
   (j < length ls \<longrightarrow>
      fold add_active_at is ls ! j = (if j \<in> set is then add_active (ls ! j) else ls ! j))"
proof (induction "is" arbitrary: ls)
  case Nil
  show ?case by simp
next
  case (Cons i "is")
  have "j < length ls \<Longrightarrow> add_active_at i ls ! j = (if i = j then add_active (ls ! j) else ls ! j)"
    by (simp add: add_active_at_def nth_list_update)
  with Cons.IH [of "add_active_at i ls"] show ?case
    by (auto simp: length_add_active_at add_active_idem)
qed

lemma is_active_simps:
  "is_active (add_active a)" "\<not> is_active (remove_active a)"
  "fragment (add_active a) = fragment a" "fragment (remove_active a) = fragment a"
  by (simp_all add: is_active_def add_active_def remove_active_def set_add_def fragment_def)

lemma most_visible_None:
  "most_visible entries = None \<longleftrightarrow> \<not> list_ex isIntersecting entries"
proof -
  have "sort_key (\<lambda>x. - ratio_or_0 x) (filter isIntersecting entries) = []
          \<longleftrightarrow> filter isIntersecting entries = []"
    by (metis length_sort length_0_conv)
  then show ?thesis
    by (auto simp: most_visible_def list_ex_iff filter_empty_conv split: list.splits)
qed

lemma most_visible_Some:
  assumes "most_visible entries = Some v"
  shows "v \<in> set entries \<and> isIntersecting v \<and>
         (\<forall>e\<in>set entries. isIntersecting e \<longrightarrow> intersectionRatio e \<le> intersectionRatio v)"
proof -
  let ?s = "sort_key (\<lambda>x. - ratio_or_0 x) (filter isIntersecting entries)"
  from assms obtain rest where s: "?s = v # rest"
    by (auto simp: most_visible_def split: list.splits)
  have "set ?s = {e \<in> set entries. isIntersecting e}" by simp
  with s have v: "v \<in> set entries" "isIntersecting v"
    and all: "\<forall>e\<in>set entries. isIntersecting e \<longrightarrow> e \<in> set (v # rest)" by auto
  have "sorted (map (\<lambda>x. - ratio_or_0 x) ?s)" by (rule sorted_sort_key)
  with s have "\<forall>e\<in>set (v # rest). - ratio_or_0 v \<le> - ratio_or_0 e" by auto
  with all have "\<forall>e\<in>set entries. isIntersecting e \<longrightarrow> ratio_or_0 e \<le> ratio_or_0 v" by auto
  moreover have "ratio_or_0 e = intersectionRatio e" for e :: "'a io_entry"
    by (simp add: ratio_or_0_def)
  ultimately show ?thesis using v by simp
qed

lemma active_callback_links:
  assumes "nv_map nv = build_map (nv_links nv)" and "most_visible entries = Some v"
  shows "length (nv_links (active_callback entries nv)) = length (nv_links nv)"
    and "i < length (nv_links nv) \<Longrightarrow>
         nv_links (active_callback entries nv) ! i =
           (if fragment (nv_links nv ! i) = target v
            then add_active (remove_active (nv_links nv ! i))
            else remove_active (nv_links nv ! i))"
proof -
  let ?idx = "filter (\<lambda>i. fragment (nv_links nv ! i) = target v) [0..<length (nv_links nv)]"
  have cb: "nv_links (active_callback entries nv) = fold add_active_at ?idx (clear (nv_links nv))"
    using assms build_map_eq [of "nv_links nv" "target v"]
    by (simp add: active_callback_def Let_def)
  show "length (nv_links (active_callback entries nv)) = length (nv_links nv)"
    using fold_add_active_at [of ?idx "clear (nv_links nv)"] by (simp add: cb clear_def)
  show "nv_links (active_callback entries nv) ! i =
           (if fragment (nv_links nv ! i) = target v
            then add_active (remove_active (nv_links nv ! i))
            else remove_active (nv_links nv ! i))" if "i < length (nv_links nv)"
    using that fold_add_active_at [of ?idx "clear (nv_links nv)" i]
    by (simp add: cb clear_def)
qed

lemma active_callback_active:
  assumes "nv_map nv = build_map (nv_links nv)" and "most_visible entries = Some v"
    and "i < length (nv_links nv)"
  shows "is_active (nv_links (active_callback entries nv) ! i) \<longleftrightarrow> fragment (nv_links nv ! i) = target v"
    and "fragment (nv_links (active_callback entries nv) ! i) = fragment (nv_links nv ! i)"
  using active_callback_links [OF assms(1,2)] assms(3) by (simp_all add: is_active_simps)

lemma active_callback_ids:
  assumes "nv_map nv = build_map (nv_links nv)" and "most_visible entries = Some v"
  shows "active_ids (active_callback entries nv) \<subseteq> {target v}"
proof
  fix x assume "x \<in> active_ids (active_callback entries nv)"
  then obtain a where a: "a \<in> set (nv_links (active_callback entries nv))" "is_active a" "x = fragment a"
    by (auto simp: active_ids_def)
  then obtain i where i: "i < length (nv_links (active_callback entries nv))"
    "nv_links (active_callback entries nv) ! i = a"
    by (auto simp: in_set_conv_nth)
  with active_callback_links(1) [OF assms] have "i < length (nv_links nv)" by simp
  with active_callback_active [OF assms this] i a show "x \<in> {target v}" by simp
qed

text \<open>
  The map is the one built from the links when the observer is created, and the callback
  keeps it so, for it writes class lists only.
\<close>

lemma initActiveNav_map:
  "initActiveNav has_io topbar ids navLinks = Some nv \<Longrightarrow> nv_map nv = build_map (nv_links nv)"
  by (auto simp: initActiveNav_def Let_def split: if_splits)

lemma build_map_cong:
  assumes "length ls = length ls'" and "\<forall>i<length ls. fragment (ls ! i) = fragment (ls' ! i)"
  shows "build_map ls = build_map ls'"
proof -
  have "fold (map_push ls) [0..<length ls] Map.empty = fold (map_push ls') [0..<length ls] Map.empty"
    using assms(2) by (intro fold_cong) (auto simp: map_push_def)
  with assms(1) show ?thesis by (simp add: build_map_def)
qed

lemma active_callback_map:
  assumes "nv_map nv = build_map (nv_links nv)"
  shows "nv_map (active_callback entries nv) = build_map (nv_links (active_callback entries nv))"
proof (cases "most_visible entries")
  case None
  with assms show ?thesis by (simp add: active_callback_def)
next
  case (Some v)
  have "nv_map (active_callback entries nv) = nv_map nv"
    using Some by (simp add: active_callback_def Let_def)
  moreover have "build_map (nv_links (active_callback entries nv)) = build_map (nv_links nv)"
    using active_callback_links(1) [OF assms Some] active_callback_active(2) [OF assms Some]
    by (intro build_map_cong) simp_all
  ultimately show ?thesis using assms by simp
qed

text \<open>
  Claim C5, as the code has it. Let the map from identifiers to links be the one built
  from the navigation links. A batch without intersecting entry changes nothing. A batch
  with an intersecting entry selects an intersecting entry \<open>v\<close> whose ratio no other
  intersecting entry of the batch exceeds, and afterwards a navigation link carries the
  active class exactly when its fragment is the identifier of the target of \<open>v\<close>; every
  other navigation link has the class removed, so no identifier other than that one has
  an active link. Hence a batch keeps the property that at most one identifier has active
  links.
\<close>

theorem C5_active_nav:
  assumes m: "nv_map nv = build_map (nv_links nv)"
  shows
    "(\<not> list_ex isIntersecting entries \<longrightarrow> active_callback entries nv = nv) \<and>
     (list_ex isIntersecting entries \<longrightarrow>
        (\<exists>v. most_visible entries = Some v \<and> v \<in> set entries \<and> isIntersecting v \<and>
             (\<forall>e\<in>set entries. isIntersecting e \<longrightarrow> intersectionRatio e \<le> intersectionRatio v) \<and>
             length (nv_links (active_callback entries nv)) = length (nv_links nv) \<and>
             (\<forall>i<length (nv_links nv).
                 (is_active (nv_links (active_callback entries nv) ! i)
                    \<longleftrightarrow> fragment (nv_links nv ! i) = target v) \<and>
                 fragment (nv_links (active_callback entries nv) ! i) = fragment (nv_links nv ! i)) \<and>
             active_ids (active_callback entries nv) \<subseteq> {target v})) \<and>
     ((\<exists>ident. active_ids nv \<subseteq> {ident}) \<longrightarrow>
        (\<exists>ident. active_ids (active_callback entries nv) \<subseteq> {ident}))"
proof (cases "most_visible entries")
  case None
  then have "\<not> list_ex isIntersecting entries" by (simp add: most_visible_None)
  moreover from None have "active_callback entries nv = nv" by (simp add: active_callback_def)
  ultimately show ?thesis by simp
next
  case (Some v)
  then have ex: "list_ex isIntersecting entries"
    using most_visible_None [of entries] by simp
  from most_visible_Some [OF Some] active_callback_links(1) [OF m Some]
    active_callback_active [OF m Some] active_callback_ids [OF m Some] Some ex
  show ?thesis by blast
qed

theorem C5_active_nav_witness:
  "nv_map nav_fresh = build_map (nv_links nav_fresh) \<and>
   list_ex isIntersecting [section_entry True (1 / 4) ''specs'', section_entry True (3 / 4) ''intro'',
       section_entry False 0 ''other''] \<and>
   most_visible [section_entry True (1 / 4) ''specs'', section_entry True (3 / 4) ''intro'',
       section_entry False 0 ''other''] = Some (section_entry True (3 / 4) ''intro'') \<and>
   map is_active (nv_links (active_callback [section_entry True (1 / 4) ''specs'',
       section_entry True (3 / 4) ''intro'', section_entry False 0 ''other''] nav_fresh))
     = [True, False, True] \<and>
   active_ids (active_callback [section_entry True (1 / 4) ''specs'',
       section_entry True (3 / 4) ''intro'', section_entry False 0 ''other''] nav_fresh) \<subseteq> {''intro''}"
proof -
  let ?es = "[section_entry True (1 / 4) ''specs'', section_entry True (3 / 4) ''intro'',
       section_entry False 0 ''other'']"
  have m: "nv_map nav_fresh = build_map (nv_links nav_fresh)" by (simp add: nav_fresh_def)
  have ex: "list_ex isIntersecting ?es" by (simp add: section_entry_def)
  have mv: "most_visible ?es = Some (section_entry True (3 / 4) ''intro'')"
    by (simp add: most_visible_def section_entry_def ratio_or_0_def)
  have len: "length (nv_links nav_fresh) = 3" by (simp add: nav_fresh_def)
  have fr: "map fragment (nv_links nav_fresh) = [''intro'', ''specs'', ''intro'']"
    by (simp add: nav_fresh_def nav_link_def fragment_def)
  from C5_active_nav [OF m, of ?es] ex mv
  have c: "length (nv_links (active_callback ?es nav_fresh)) = length (nv_links nav_fresh)"
    "\<forall>i<length (nv_links nav_fresh).
       is_active (nv_links (active_callback ?es nav_fresh) ! i)
          \<longleftrightarrow> fragment (nv_links nav_fresh ! i) = ''intro''"
    "active_ids (active_callback ?es nav_fresh) \<subseteq> {''intro''}"
    by (auto simp: section_entry_def)
  have "map is_active (nv_links (active_callback ?es nav_fresh)) = [True, False, True]"
  proof (rule nth_equalityI)
    show "length (map is_active (nv_links (active_callback ?es nav_fresh))) = length [True, False, True]"
      using c(1) len by simp
    fix i assume "i < length (map is_active (nv_links (active_callback ?es nav_fresh)))"
    then have i: "i < 3" using c(1) len by simp
    then have "i = 0 \<or> i = 1 \<or> i = 2" by auto
    moreover from fr have "fragment (nv_links nav_fresh ! 0) = ''intro''"
      "fragment (nv_links nav_fresh ! 1) = ''specs''" "fragment (nv_links nav_fresh ! 2) = ''intro''"
      by (simp_all add: nav_fresh_def)
    ultimately show "map is_active (nv_links (active_callback ?es nav_fresh)) ! i = [True, False, True] ! i"
      using c(1,2) len i by auto
  qed
  with m ex mv c(3) show ?thesis by simp
qed

text \<open>
  Claim C5 as stated holds "after every batch". The callback returns at once when no
  entry of the batch is intersecting, so it leaves whatever the markup had: here two
  links with different fragments carry the class before the batch, and both still carry
  it afterwards.
\<close>

theorem C5_every_batch_counterexample:
  "nv_map nav_two_active = build_map (nv_links nav_two_active) \<and>
   active_ids (active_callback [section_entry False 0 ''intro''] nav_two_active)
     = {''intro'', ''specs''} \<and>
   ''intro'' \<noteq> ''specs''"
  by (simp add: nav_two_active_def active_callback_def most_visible_def section_entry_def
      active_ids_def is_active_def nav_link_def fragment_def)

subsection \<open>C9: the click guard of version 2\<close>

lemma setOpen_frame:
  "ignoreClick (setOpen b s) = ignoreClick s"
  "timers (setOpen b s) = timers s"
  "now (setOpen b s) = now s"
  by (simp_all add: setOpen_def Let_def safeFocus_frame scrollLock_lock_frame
      scrollLock_unlock_frame)

lemma isOpen_setOpen: "isOpen (setOpen b s) = b"
  by (simp add: isOpen_def setOpen_attrs bool_attr_def)

lemma isOpen_toggle: "isOpen (toggle s) = (\<not> isOpen s)"
  by (simp add: toggle_def isOpen_setOpen)

lemma touchend_fields:
  "ignoreClick (btn_touchend dur s)" "ignoreClick (scrim_touchend dur s)"
  "timers (btn_touchend dur s) = timers s @ [now s + dur + 450]"
  "timers (scrim_touchend dur s) = timers s @ [now s + dur + 450]"
  "now (btn_touchend dur s) = now s + dur" "now (scrim_touchend dur s) = now s + dur"
  "isOpen (btn_touchend dur s) = (\<not> isOpen s)" "\<not> isOpen (scrim_touchend dur s)"
  by (simp_all add: btn_touchend_def scrim_touchend_def set_timeout_def onToggle_def Let_def
      onClose_def toggle_def setOpen_frame isOpen_def setOpen_attrs bool_attr_def)















text \<open>
  Every event keeps the pending callbacks in the order of their due times, none of them
  due later than 450 ms from now: the first of the list is the next to fall due.
\<close>

lemma bound_mono:
  "list_all (\<lambda>d. d \<le> a + 450) ds \<Longrightarrow> a \<le> b \<Longrightarrow> list_all (\<lambda>d. d \<le> b + (450 :: nat)) ds"
  by (induction ds) auto

lemma sorted_snoc_bound:
  "sorted ds \<Longrightarrow> list_all (\<lambda>d. d \<le> b) ds \<Longrightarrow> sorted (ds @ [b :: nat])"
  by (auto simp: sorted_append list_all_iff)

lemma menu_frame:
  "timers (setOpen b s) = timers s" "now (setOpen b s) = now s"
  "timers (toggle s) = timers s" "now (toggle s) = now s"
  by (simp_all add: toggle_def setOpen_frame)

lemma timers_sorted_deliver:
  assumes "sorted (timers s) \<and> list_all (\<lambda>d. d \<le> now s + 450) (timers s)"
  shows "sorted (timers (deliver (t, ev) s)) \<and>
         list_all (\<lambda>d. d \<le> now (deliver (t, ev) s) + 450) (timers (deliver (t, ev) s))"
proof -
  let ?u = "s\<lparr>now := max (now s) t\<rparr>"
  from assms have u: "sorted (timers ?u)" "list_all (\<lambda>d. d \<le> now ?u + 450) (timers ?u)"
    using bound_mono [of "now s" "timers s" "max (now s) t"] by simp_all
  have touch: "sorted (timers ?u @ [now ?u + dur + 450]) \<and>
      list_all (\<lambda>d. d \<le> now ?u + dur + 450) (timers ?u @ [now ?u + dur + 450])" for dur
  proof -
    from u(2) have b: "list_all (\<lambda>d. d \<le> now ?u + dur + 450) (timers ?u)"
      using bound_mono [of "now ?u" "timers ?u" "now ?u + dur"] by simp
    with u(1) show ?thesis by (simp add: sorted_snoc_bound)
  qed
  have tl: "sorted (tl (timers ?u))" "list_all (\<lambda>d. d \<le> now ?u + 450) (tl (timers ?u))"
    using u by (cases "timers ?u", simp_all)+
  show ?thesis
  proof (cases ev)
    case (BtnTouchEnd dur)
    with touch [of dur] show ?thesis by (simp add: deliver_def touchend_fields)
  next
    case (ScrimTouchEnd dur)
    with touch [of dur] show ?thesis by (simp add: deliver_def touchend_fields)
  next
    case TimerFire
    with u tl show ?thesis
      by (cases "timers s") (simp_all add: deliver_def run_timer_def timer_fire_def)
  next
    case BtnClick
    with u show ?thesis
      by (simp add: deliver_def btn_click_v2_def onToggle_def menu_frame)
  next
    case ScrimClick
    with u show ?thesis
      by (simp add: deliver_def scrim_click_v2_def onClose_def menu_frame)
  next
    case (DrawerClick x)
    with u show ?thesis by (simp add: deliver_def drawer_click_def menu_frame)
  next
    case KeyEscape
    with u show ?thesis by (simp add: deliver_def key_escape_def menu_frame)
  next
    case (Resize x)
    with u show ?thesis by (simp add: deliver_def resize_def menu_frame)
  qed
qed




subsection \<open>C6: the table-wrap pass\<close>

lemma wrap_table_eq:
  "wrap_table t d = (if eligible t d then insert_wrapper t (fresh_id d) d else d)"
  by (simp add: wrap_table_def eligible_def eligible_chain_def split: option.splits)

lemma nid_wrapped: "nid (wrapped S W k) = nid k"
  by (cases k) simp

lemma first_some_map_option:
  "first_some (map (\<lambda>x. map_option f (g x)) xs) = map_option f (first_some (map g xs))"
proof (induction xs)
  case Nil
  show ?case by simp
next
  case (Cons a xs)
  then show ?case by (cases "g a") simp_all
qed

lemma chain_head: "chain t k = Some c \<Longrightarrow> \<exists>rest. c = (nid k, tag k, classList k) # rest"
  by (cases k) (auto split: if_splits)

lemma weave_all_Cons:
  "weave_all S W (a # c) =
     (if fst a \<in> S then (W (fst a), ''div'', [''table-wrap'']) # a # weave_all S W c
      else a # weave_all S W c)"
  by (simp add: weave_all_def)

lemma weave_all_Nil: "weave_all S W [] = []"
  by (simp add: weave_all_def)

lemma chain_wrapped:
  assumes "t \<notin> W ` S"
  shows "chain t (wrapped S W d) = map_option (weave S W) (chain t d)"
proof (induction d)
  case (Node i tg cl ks)
  let ?el = "\<lambda>k. if nid k \<in> S then Node (W (nid k)) ''div'' [''table-wrap''] [wrapped S W k]
                 else wrapped S W k"
  have el: "chain t (?el k) = map_option (weave_all S W) (chain t k)" if k: "k \<in> set ks" for k
  proof (cases "chain t k")
    case None
    with Node.IH [OF k] assms show ?thesis by auto
  next
    case (Some c)
    then obtain rest where c: "c = (nid k, tag k, classList k) # rest"
      using chain_head by blast
    from Some Node.IH [OF k] have w: "chain t (wrapped S W k) = Some (weave S W c)" by simp
    show ?thesis
    proof (cases "nid k \<in> S")
      case True
      with assms have "W (nid k) \<noteq> t" by auto
      with True w Some c show ?thesis by (simp add: weave_def weave_all_Cons)
    next
      case False
      with w Some c show ?thesis by (simp add: weave_def weave_all_Cons)
    qed
  qed
  have "map (chain t) (map ?el ks) = map (\<lambda>k. map_option (weave_all S W) (chain t k)) ks"
    using el by simp
  then have "first_some (map (chain t) (map ?el ks))
      = map_option (weave_all S W) (first_some (map (chain t) ks))"
    by (simp only: first_some_map_option)
  then show ?case
    by (cases "first_some (map (chain t) ks)")
       (simp_all add: weave_def weave_all_Cons weave_all_Nil)
qed

lemma ids_of_wrapped: "set (ids_of d) \<subseteq> set (ids_of (wrapped S W d))"
proof (induction d)
  case (Node i tg cl ks)
  have "set (ids_of k) \<subseteq> set (ids_of (if nid k \<in> S
          then Node (W (nid k)) ''div'' [''table-wrap''] [wrapped S W k] else wrapped S W k))"
    if "k \<in> set ks" for k
    using Node.IH [OF that] by auto
  then show ?case by (fastforce simp: )
qed

lemma tables_of_wrapped: "tables_of (wrapped S W d) = tables_of d"
proof (induction d)
  case (Node i tg cl ks)
  have "map (\<lambda>k. tables_of (if nid k \<in> S
          then Node (W (nid k)) ''div'' [''table-wrap''] [wrapped S W k] else wrapped S W k)) ks
        = map tables_of ks"
  proof (rule map_cong [OF refl])
    fix k assume "k \<in> set ks"
    then show "tables_of (if nid k \<in> S
          then Node (W (nid k)) ''div'' [''table-wrap''] [wrapped S W k] else wrapped S W k)
        = tables_of k"
      using Node.IH by simp
  qed
  then show ?case by (simp add: comp_def cong: map_cong)
qed

text \<open>The identities strictly below an element.\<close>

lemma ids_of_eq: "ids_of k = nid k # concat (map ids_of (childNodes k))"
  by (cases k) simp

lemma wrapped_cong:
  assumes "\<forall>x \<in> set (concat (map ids_of (childNodes k))). (x \<in> S \<longleftrightarrow> x \<in> S') \<and> (x \<in> S \<longrightarrow> W x = W' x)"
  shows "wrapped S W k = wrapped S' W' k"
  using assms
proof (induction k)
  case (Node i tg cl ks)
  have "(if nid k \<in> S then Node (W (nid k)) ''div'' [''table-wrap''] [wrapped S W k]
          else wrapped S W k)
      = (if nid k \<in> S' then Node (W' (nid k)) ''div'' [''table-wrap''] [wrapped S' W' k]
          else wrapped S' W' k)" if k: "k \<in> set ks" for k
  proof -
    have sub: "set (ids_of k) \<subseteq> set (concat (map ids_of ks))" using k by auto
    then have "nid k \<in> set (concat (map ids_of ks))" by (auto simp: ids_of_eq [of k])
    with Node.prems have a: "nid k \<in> S \<longleftrightarrow> nid k \<in> S'" "nid k \<in> S \<longrightarrow> W (nid k) = W' (nid k)"
      by auto
    have "\<forall>x \<in> set (concat (map ids_of (childNodes k))). (x \<in> S \<longleftrightarrow> x \<in> S') \<and> (x \<in> S \<longrightarrow> W x = W' x)"
      using sub Node.prems by (auto simp: ids_of_eq [of k])
    with Node.IH [OF k] have "wrapped S W k = wrapped S' W' k" by simp
    with a show ?thesis by auto
  qed
  then show ?case by simp
qed

lemma insert_wrapper_wrapped:
  assumes "distinct (ids_of d)" "t \<notin> S" "t \<notin> W ` S"
  shows "insert_wrapper t w (wrapped S W d)
           = wrapped (insert t S) (\<lambda>x. if x = t then w else W x) d"
  using assms(1)
proof (induction d)
  case (Node i tg cl ks)
  let ?el = "\<lambda>k. if nid k \<in> S then Node (W (nid k)) ''div'' [''table-wrap''] [wrapped S W k]
                 else wrapped S W k"
  let ?S = "insert t S" and ?W = "\<lambda>x. if x = t then w else W x"
  have el: "(if nid (?el k) = t then Node w ''div'' [''table-wrap''] [?el k]
             else insert_wrapper t w (?el k))
      = (if nid k \<in> ?S then Node (?W (nid k)) ''div'' [''table-wrap''] [wrapped ?S ?W k]
          else wrapped ?S ?W k)" if k: "k \<in> set ks" for k
  proof -
    from Node.prems k have dk: "distinct (ids_of k)"
      by (auto simp: distinct_concat_iff)
    note IH = Node.IH [OF k dk]
    show ?thesis
    proof (cases "nid k \<in> S")
      case True
      with assms have "W (nid k) \<noteq> t" "nid k \<noteq> t" by auto
      with True IH show ?thesis by (simp add: nid_wrapped)
    next
      case False
      show ?thesis
      proof (cases "nid k = t")
        case True
        from dk have "t \<notin> set (concat (map ids_of (childNodes k)))"
          using True by (simp add: ids_of_eq [of k])
        then have "wrapped S W k = wrapped ?S ?W k"
          by (intro wrapped_cong) auto
        with True False show ?thesis by (simp add: nid_wrapped)
      next
        case neq: False
        with False IH show ?thesis by (simp add: nid_wrapped)
      qed
    qed
  qed
  have "map ((\<lambda>e. if nid e = t then Node w ''div'' [''table-wrap''] [e] else insert_wrapper t w e) \<circ> ?el) ks
      = map (\<lambda>k. if nid k \<in> ?S then Node (?W (nid k)) ''div'' [''table-wrap''] [wrapped ?S ?W k]
          else wrapped ?S ?W k) ks"
    using el by (intro map_cong) (simp_all only: comp_def)
  then show ?case by simp
qed


lemma ids_of_elems: "ids_of d = map fst (elems_of d)"
  by (induction d) (simp add: map_concat comp_def cong: map_cong)

lemma tables_of_elems:
  "tables_of d = map fst (filter (\<lambda>e. fst (snd e) = ''table'') (elems_of d))"
  by (induction d) (simp add: map_concat filter_concat comp_def cong: map_cong)

lemma tables_of_ids:
  "set (tables_of d) \<subseteq> set (ids_of d)"
  "distinct (ids_of d) \<Longrightarrow> distinct (tables_of d)"
  by (auto simp: ids_of_elems tables_of_elems distinct_map_filter)

lemma fold_max_ge: "x \<in> set xs \<Longrightarrow> x \<le> fold max xs (a :: nat)"
proof (induction xs arbitrary: a)
  case Nil
  then show ?case by simp
next
  case (Cons y ys)
  have mono: "b \<le> fold max zs b" for zs and b :: nat
    by (induction zs arbitrary: b) (auto intro: order_trans [OF max.cobounded2])
  from Cons show ?case
    using mono [of "max y a" ys] by auto
qed

lemma fresh_id_new: "fresh_id d \<notin> set (ids_of d)"
  using fold_max_ge [of "fresh_id d" "ids_of d" 0] by (auto simp: fresh_id_def)

lemma chain_last: "chain t d = Some c \<Longrightarrow> \<exists>front e. c = front @ [e] \<and> fst e = t"
proof (induction d arbitrary: c)
  case (Node i tg cl ks)
  show ?case
  proof (cases "i = t")
    case True
    with Node.prems show ?thesis by auto
  next
    case False
    with Node.prems obtain p where p: "first_some (map (chain t) ks) = Some p" "c = (i, tg, cl) # p"
      by auto
    have "\<exists>k\<in>set ks. chain t k = Some p" using p(1)
    proof (induction ks)
      case Nil
      then show ?case by simp
    next
      case (Cons k ks)
      then show ?case by (cases "chain t k") auto
    qed
    then obtain k where "k \<in> set ks" "chain t k = Some p" by blast
    from Node.IH [OF this] obtain front e where "p = front @ [e]" "fst e = t" by blast
    with p(2) have "c = ((i, tg, cl) # front) @ [e] \<and> fst e = t" by simp
    then show ?thesis by blast
  qed
qed

lemma weave_all_append: "weave_all S W (xs @ ys) = weave_all S W xs @ weave_all S W ys"
  by (simp add: weave_all_def)

lemma closest_None: "closest P xs = None \<longleftrightarrow> (\<forall>x\<in>set xs. \<not> P x)"
  by (auto simp: closest_def find_None_iff)

lemma set_weave_all:
  "set (weave_all S W c) = set c \<union> (\<lambda>a. (W (fst a), ''div'', [''table-wrap''])) ` {a \<in> set c. fst a \<in> S}"
  by (induction c) (auto simp: weave_all_Cons weave_all_Nil)

lemma pre_code_weave:
  "(\<forall>x\<in>set (weave S W c). \<not> is_pre_code x) \<longleftrightarrow> (\<forall>x\<in>set c. \<not> is_pre_code x)"
  by (cases c) (auto simp: weave_def set_weave_all is_pre_code_def)

lemma parentElement_snoc2: "parentElement (xs @ [p, e]) = Some p"
  by (simp add: parentElement_def)

lemma parentElement_single: "parentElement [e] = None"
  by (simp add: parentElement_def)

lemma eligible_chain_weave:
  assumes "fst e \<notin> S"
  shows "eligible_chain (weave S W (front @ [e])) = eligible_chain (front @ [e])"
proof (cases front rule: rev_cases)
  case Nil
  then show ?thesis by (simp add: weave_def weave_all_Nil)
next
  case (snoc ys p)
  have "\<exists>zs. weave S W (ys @ [p, e]) = zs @ [p, e]"
  proof (cases ys)
    case Nil
    with assms show ?thesis by (simp add: weave_def weave_all_Cons weave_all_Nil)
  next
    case (Cons a as)
    have "weave_all S W (as @ [p, e]) = (weave_all S W as @ weave_all S W [p]) @ weave_all S W [e]"
      using weave_all_append [of S W "as @ [p]" "[e]"] weave_all_append [of S W as "[p]"] by simp
    with assms Cons show ?thesis
      by (simp add: weave_def weave_all_Cons weave_all_Nil del: append_assoc)
  qed
  then obtain zs where "weave S W (ys @ [p, e]) = zs @ [p, e]" by blast
  then have "parentElement (weave S W (ys @ [p, e])) = parentElement (ys @ [p, e])"
    by (simp add: parentElement_snoc2)
  moreover have "closest is_pre_code (rev (weave S W (front @ [e]))) = None
      \<longleftrightarrow> closest is_pre_code (rev (front @ [e])) = None"
    using pre_code_weave [of S W "front @ [e]"] by (simp add: closest_None)
  ultimately show ?thesis
    using snoc by (simp add: eligible_chain_def split: option.splits)
qed

lemma not_eligible_chain_weave:
  assumes "fst e \<in> S"
  shows "\<not> eligible_chain (weave S W (front @ [e]))"
proof (cases front)
  case Nil
  then show ?thesis by (simp add: weave_def weave_all_Nil eligible_chain_def parentElement_single)
next
  case (Cons a as)
  have "weave_all S W (as @ [e]) = weave_all S W as @ [(W (fst e), ''div'', [''table-wrap'']), e]"
    using assms by (simp add: weave_all_append weave_all_Cons weave_all_Nil)
  then have "weave S W (front @ [e]) = (a # weave_all S W as) @ [(W (fst e), ''div'', [''table-wrap'']), e]"
    using Cons by (simp add: weave_def)
  then have "parentElement (weave S W (front @ [e])) = Some (W (fst e), ''div'', [''table-wrap''])"
    by (simp only: parentElement_snoc2)
  then show ?thesis by (simp add: eligible_chain_def)
qed

lemma eligible_wrapped:
  assumes "t \<notin> W ` S"
  shows "t \<notin> S \<Longrightarrow> eligible t (wrapped S W d) = eligible t d"
    and "t \<in> S \<Longrightarrow> \<not> eligible t (wrapped S W d)"
proof -
  show "eligible t (wrapped S W d) = eligible t d" if "t \<notin> S"
  proof (cases "chain t d")
    case None
    with assms show ?thesis by (simp add: eligible_def chain_wrapped)
  next
    case (Some c)
    then obtain front e where "c = front @ [e]" "fst e = t" using chain_last by blast
    with Some that assms show ?thesis
      by (simp add: eligible_def chain_wrapped eligible_chain_weave)
  qed
  show "\<not> eligible t (wrapped S W d)" if "t \<in> S"
  proof (cases "chain t d")
    case None
    with assms show ?thesis by (simp add: eligible_def chain_wrapped)
  next
    case (Some c)
    then obtain front e where "c = front @ [e]" "fst e = t" using chain_last by blast
    with Some that assms show ?thesis
      by (simp add: eligible_def chain_wrapped not_eligible_chain_weave)
  qed
qed

lemma wrapped_empty: "wrapped {} W d = d"
  by (induction d) (simp add: map_idI)

lemma fold_wrap_table:
  assumes "distinct (ids_of d)"
  shows "distinct ts \<Longrightarrow> set ts \<subseteq> set (ids_of d) \<Longrightarrow> set ts \<inter> S = {} \<Longrightarrow>
         W ` S \<inter> set (ids_of d) = {} \<Longrightarrow>
         \<exists>W'. fold wrap_table ts (wrapped S W d)
                 = wrapped (S \<union> {t \<in> set ts. eligible t d}) W' d \<and>
               W' ` (S \<union> {t \<in> set ts. eligible t d}) \<inter> set (ids_of d) = {}"
proof (induction ts arbitrary: S W)
  case Nil
  then show ?case by auto
next
  case (Cons t ts)
  let ?cur = "wrapped S W d"
  from Cons.prems have t: "t \<notin> S" "t \<in> set (ids_of d)" "t \<notin> set ts" by auto
  with Cons.prems have tW: "t \<notin> W ` S" by auto
  have el: "eligible t ?cur = eligible t d"
    using eligible_wrapped(1) [OF tW t(1)] .
  show ?case
  proof (cases "eligible t d")
    case True
    let ?W = "\<lambda>x. if x = t then fresh_id ?cur else W x"
    have step: "wrap_table t ?cur = wrapped (insert t S) ?W d"
      using True el insert_wrapper_wrapped [OF assms t(1) tW] by (simp add: wrap_table_eq)
    have "fresh_id ?cur \<notin> set (ids_of d)"
      using fresh_id_new [of ?cur] ids_of_wrapped [of d S W] by auto
    with Cons.prems have fr: "?W ` insert t S \<inter> set (ids_of d) = {}" by auto
    from Cons.prems t have "distinct ts" "set ts \<subseteq> set (ids_of d)" "set ts \<inter> insert t S = {}"
      by auto
    from Cons.IH [OF this fr] obtain W' where
      "fold wrap_table ts (wrapped (insert t S) ?W d)
         = wrapped (insert t S \<union> {t \<in> set ts. eligible t d}) W' d"
      "W' ` (insert t S \<union> {t \<in> set ts. eligible t d}) \<inter> set (ids_of d) = {}"
      by blast
    moreover have "insert t S \<union> {t \<in> set ts. eligible t d} = S \<union> {x \<in> set (t # ts). eligible x d}"
      using True by auto
    ultimately show ?thesis using step by auto
  next
    case False
    have step: "wrap_table t ?cur = ?cur"
      using False el by (simp add: wrap_table_eq)
    from Cons.prems have "distinct ts" "set ts \<subseteq> set (ids_of d)" "set ts \<inter> S = {}"
      "W ` S \<inter> set (ids_of d) = {}"
      by auto
    from Cons.IH [OF this] obtain W' where
      "fold wrap_table ts ?cur = wrapped (S \<union> {t \<in> set ts. eligible t d}) W' d"
      "W' ` (S \<union> {t \<in> set ts. eligible t d}) \<inter> set (ids_of d) = {}"
      by blast
    moreover have "S \<union> {t \<in> set ts. eligible t d} = S \<union> {x \<in> set (t # ts). eligible x d}"
      using False by auto
    ultimately show ?thesis using step by auto
  qed
qed

text \<open>The result of the pass: the eligible tables are wrapped, by new elements.\<close>

lemma initTableWrap_wrapped:
  assumes "distinct (ids_of d)"
  shows "\<exists>W. initTableWrap d = wrapped {t \<in> set (tables_of d). eligible t d} W d \<and>
             W ` {t \<in> set (tables_of d). eligible t d} \<inter> set (ids_of d) = {}"
  using fold_wrap_table [OF assms, of "tables_of d" "{}" id] tables_of_ids [of d] assms
  by (simp add: initTableWrap_def wrapped_empty)

lemma fold_fixed: "(\<And>t. t \<in> set ts \<Longrightarrow> f t x = x) \<Longrightarrow> fold f ts x = x"
  by (induction ts) simp_all

lemma initTableWrap_idem:
  assumes "distinct (ids_of d)"
  shows "initTableWrap (initTableWrap d) = initTableWrap d"
proof -
  let ?E = "{t \<in> set (tables_of d). eligible t d}"
  from initTableWrap_wrapped [OF assms] obtain W where
    W: "initTableWrap d = wrapped ?E W d" "W ` ?E \<inter> set (ids_of d) = {}" by blast
  have "wrap_table t (wrapped ?E W d) = wrapped ?E W d" if t: "t \<in> set (tables_of d)" for t
  proof -
    from t tables_of_ids(1) [of d] W(2) have "t \<notin> W ` ?E" by auto
    from eligible_wrapped [OF this, of d] t have "\<not> eligible t (wrapped ?E W d)" by auto
    then show ?thesis by (simp add: wrap_table_eq)
  qed
  then have "fold wrap_table (tables_of d) (wrapped ?E W d) = wrapped ?E W d"
    by (rule fold_fixed)
  then show ?thesis
    by (simp add: W(1) initTableWrap_def [of "wrapped ?E W d"] tables_of_wrapped)
qed


lemma chain_None: "x \<notin> set (ids_of k) \<Longrightarrow> chain x k = None"
proof (induction k)
  case (Node i tg cl ks)
  then have "\<forall>k\<in>set ks. chain x k = None" by auto
  then have "first_some (map (chain x) ks) = None"
    by (induction ks) simp_all
  with Node.prems show ?case by simp
qed

lemma first_some_unique:
  "distinct (concat (map ids_of ks)) \<Longrightarrow> k \<in> set ks \<Longrightarrow> chain x k = Some c \<Longrightarrow>
   first_some (map (chain x) ks) = Some c"
proof (induction ks)
  case Nil
  then show ?case by simp
next
  case (Cons a ks)
  show ?case
  proof (cases "a = k")
    case True
    with Cons.prems show ?thesis by simp
  next
    case False
    with Cons.prems have k: "k \<in> set ks" by simp
    from Cons.prems(3) have "x \<in> set (ids_of k)" using chain_None [of x k] by auto
    with k Cons.prems(1) have "x \<notin> set (ids_of a)" by auto
    then have "chain x a = None" by (rule chain_None)
    with Cons.IH [OF _ k Cons.prems(3)] Cons.prems(1) show ?thesis by simp
  qed
qed

lemma chain_child:
  assumes "distinct (ids_of (Node i tg cl ks))" "k \<in> set ks" "chain x k = Some c"
  shows "chain x (Node i tg cl ks) = Some ((i, tg, cl) # c)"
proof -
  from assms(3) have "x \<in> set (ids_of k)" using chain_None [of x k] by auto
  with assms(1,2) have "x \<noteq> i" by auto
  moreover from assms have "first_some (map (chain x) ks) = Some c"
    by (intro first_some_unique) simp_all
  ultimately show ?thesis by simp
qed

lemma nid_in_ids: "nid k \<in> set (ids_of k)"
  by (cases k) simp

lemma chain_self: "chain (nid k) k = Some [(nid k, tag k, classList k)]"
  by (cases k) simp

lemma eligible_chain_snoc2:
  "eligible_chain (ctx @ [p, e])
     = (''table-wrap'' \<notin> set (snd (snd p)) \<and> (\<forall>a\<in>set (ctx @ [p, e]). \<not> is_pre_code a))"
  using parentElement_snoc2 [of ctx p e] closest_None [of is_pre_code "rev (ctx @ [p, e])"]
  by (auto simp: eligible_chain_def)

lemma stag_shape_of: "stag (shape_of k) = tag k"
  by (cases k) simp

lemma shape_of_wrapped:
  assumes "distinct (ids_of k)"
    and "\<forall>x c. chain x k = Some c \<longrightarrow> x \<noteq> nid k \<longrightarrow>
           (x \<in> S \<longleftrightarrow> fst (snd (last c)) = ''table'' \<and> eligible_chain (ctx @ c))"
  shows "shape_of (wrapped S W k) = wrap_spec (\<exists>a\<in>set ctx. is_pre_code a) (shape_of k)"
  using assms
proof (induction k arbitrary: ctx)
  case (Node i tg cl ks)
  let ?inside = "(\<exists>a\<in>set ctx. is_pre_code a) \<or> tg = ''pre'' \<or> tg = ''code''"
  have ins: "?inside \<longleftrightarrow> (\<exists>a\<in>set (ctx @ [(i, tg, cl)]). is_pre_code a)"
    by (auto simp: is_pre_code_def)
  have kid: "shape_of (if nid k \<in> S
          then Node (W (nid k)) ''div'' [''table-wrap''] [wrapped S W k] else wrapped S W k)
      = (if stag (shape_of k) = ''table'' \<and> ''table-wrap'' \<notin> set cl \<and> \<not> ?inside
         then Shape ''div'' [''table-wrap''] [wrap_spec ?inside (shape_of k)]
         else wrap_spec ?inside (shape_of k))" if k: "k \<in> set ks" for k
  proof -
    from Node.prems(1) k have dk: "distinct (ids_of k)"
      by (auto simp: distinct_concat_iff)
    from Node.prems(1) k nid_in_ids [of k] have ne: "nid k \<noteq> i"
      by auto
    have hyp: "\<forall>x c. chain x k = Some c \<longrightarrow> x \<noteq> nid k \<longrightarrow>
           (x \<in> S \<longleftrightarrow> fst (snd (last c)) = ''table'' \<and> eligible_chain ((ctx @ [(i, tg, cl)]) @ c))"
    proof (intro allI impI)
      fix x c assume c: "chain x k = Some c" and "x \<noteq> nid k"
      from chain_child [OF Node.prems(1) k c] have "chain x (Node i tg cl ks) = Some ((i, tg, cl) # c)" .
      moreover from c have "x \<in> set (ids_of k)" using chain_None [of x k] by auto
      with Node.prems(1) k have "x \<noteq> i" by auto
      moreover from c have "c \<noteq> []" using chain_head by blast
      ultimately show "x \<in> S \<longleftrightarrow> fst (snd (last c)) = ''table'' \<and> eligible_chain ((ctx @ [(i, tg, cl)]) @ c)"
        using Node.prems(2) by simp
    qed
    from Node.IH [OF k dk hyp] ins
    have rec: "shape_of (wrapped S W k) = wrap_spec ?inside (shape_of k)" by simp
    from chain_child [OF Node.prems(1) k chain_self]
    have "chain (nid k) (Node i tg cl ks) = Some [(i, tg, cl), (nid k, tag k, classList k)]" .
    with Node.prems(2) ne
    have "nid k \<in> S \<longleftrightarrow> tag k = ''table'' \<and>
            eligible_chain (ctx @ [(i, tg, cl), (nid k, tag k, classList k)])"
      by simp
    also have "\<dots> \<longleftrightarrow> tag k = ''table'' \<and> ''table-wrap'' \<notin> set cl \<and> \<not> ?inside"
      by (auto simp: eligible_chain_snoc2 is_pre_code_def)
    finally show ?thesis using rec by (simp add: stag_shape_of)
  qed
  have "map (\<lambda>k. shape_of (if nid k \<in> S
          then Node (W (nid k)) ''div'' [''table-wrap''] [wrapped S W k] else wrapped S W k)) ks
      = map (\<lambda>k. if stag (shape_of k) = ''table'' \<and> ''table-wrap'' \<notin> set cl \<and> \<not> ?inside
         then Shape ''div'' [''table-wrap''] [wrap_spec ?inside (shape_of k)]
         else wrap_spec ?inside (shape_of k)) ks"
    using kid by (intro map_cong refl)
  then show ?case by (simp add: comp_def)
qed

lemma chain_last_elem: "chain x d = Some c \<Longrightarrow> last c \<in> set (elems_of d)"
proof (induction d arbitrary: c)
  case (Node i tg cl ks)
  show ?case
  proof (cases "i = x")
    case True
    with Node.prems show ?thesis by auto
  next
    case False
    with Node.prems obtain p where p: "first_some (map (chain x) ks) = Some p" "c = (i, tg, cl) # p"
      by auto
    have "\<exists>k\<in>set ks. chain x k = Some p" using p(1)
    proof (induction ks)
      case Nil
      then show ?case by simp
    next
      case (Cons k ks)
      then show ?case by (cases "chain x k") auto
    qed
    then obtain k where k: "k \<in> set ks" "chain x k = Some p" by blast
    from k(2) have "p \<noteq> []" using chain_head by blast
    with Node.IH [OF k] p(2) k(1) show ?thesis by auto
  qed
qed

lemma table_iff_tag:
  assumes "distinct (ids_of d)" "chain x d = Some c"
  shows "x \<in> set (tables_of d) \<longleftrightarrow> fst (snd (last c)) = ''table''"
proof -
  from chain_last [OF assms(2)] have fx: "fst (last c) = x" by auto
  from chain_last_elem [OF assms(2)] have mem: "last c \<in> set (elems_of d)" .
  from assms(1) have inj: "inj_on fst (set (elems_of d))"
    by (simp add: ids_of_elems distinct_map)
  show ?thesis
  proof
    assume "x \<in> set (tables_of d)"
    then obtain e where e: "e \<in> set (elems_of d)" "fst (snd e) = ''table''" "fst e = x"
      by (auto simp: tables_of_elems)
    with inj mem fx have "e = last c" by (auto dest: inj_onD)
    with e show "fst (snd (last c)) = ''table''" by simp
  next
    assume "fst (snd (last c)) = ''table''"
    with mem fx show "x \<in> set (tables_of d)"
      by (force simp: tables_of_elems)
  qed
qed

lemma shape_of_initTableWrap:
  assumes "distinct (ids_of d)"
  shows "shape_of (initTableWrap d) = wrap_spec False (shape_of d)"
proof -
  let ?E = "{t \<in> set (tables_of d). eligible t d}"
  from initTableWrap_wrapped [OF assms] obtain W where
    W: "initTableWrap d = wrapped ?E W d" by blast
  have "\<forall>x c. chain x d = Some c \<longrightarrow> x \<noteq> nid d \<longrightarrow>
           (x \<in> ?E \<longleftrightarrow> fst (snd (last c)) = ''table'' \<and> eligible_chain ([] @ c))"
    using table_iff_tag [OF assms] by (auto simp: eligible_def)
  from shape_of_wrapped [OF assms this] W show ?thesis by simp
qed

text \<open>
  Claim C6. In a document whose elements have distinct identities, the pass does what
  the specification words say: seen without identities, its result is the document in
  which every table whose parent lacks the class \<^verbatim>\<open>table-wrap\<close> and that is not inside
  a \<^verbatim>\<open>pre\<close> or \<^verbatim>\<open>code\<close> element sits in exactly one new \<^verbatim>\<open>div\<close> of class
  \<^verbatim>\<open>table-wrap\<close> at the table's former position, and nothing else is changed. The
  tables of the result are the tables of the document, and running the pass again on
  the result returns the result itself: no table receives a further wrapper.
\<close>

theorem C6_table_wrap_idempotent:
  assumes "distinct (ids_of d)"
  shows "shape_of (initTableWrap d) = wrap_spec False (shape_of d) \<and>
         tables_of (initTableWrap d) = tables_of d \<and>
         initTableWrap (initTableWrap d) = initTableWrap d"
proof -
  from initTableWrap_wrapped [OF assms] obtain W where
    "initTableWrap d = wrapped {t \<in> set (tables_of d). eligible t d} W d" by blast
  then have "tables_of (initTableWrap d) = tables_of d"
    by (simp add: tables_of_wrapped)
  with shape_of_initTableWrap [OF assms] initTableWrap_idem [OF assms] show ?thesis by simp
qed

theorem C6_table_wrap_idempotent_witness:
  "distinct (ids_of doc0) \<and>
   shape_of (initTableWrap doc0) =
     Shape ''body'' []
       [Shape ''div'' [''table-wrap'']
          [Shape ''table'' []
             [Shape ''td'' [] [Shape ''div'' [''table-wrap''] [Shape ''table'' [''inner''] []]]]],
        Shape ''div'' [''table-wrap''] [Shape ''table'' [] []],
        Shape ''pre'' [] [Shape ''span'' [] [Shape ''table'' [] []]]] \<and>
   tables_of (initTableWrap doc0) = [1, 3, 5, 8] \<and>
   initTableWrap (initTableWrap doc0) = initTableWrap doc0"
proof -
  have d: "distinct (ids_of doc0)" by (simp add: doc0_def)
  have t: "tables_of doc0 = [1, 3, 5, 8]" by (simp add: doc0_def)
  have s: "wrap_spec False (shape_of doc0) =
     Shape ''body'' []
       [Shape ''div'' [''table-wrap'']
          [Shape ''table'' []
             [Shape ''td'' [] [Shape ''div'' [''table-wrap''] [Shape ''table'' [''inner''] []]]]],
        Shape ''div'' [''table-wrap''] [Shape ''table'' [] []],
        Shape ''pre'' [] [Shape ''span'' [] [Shape ''table'' [] []]]]"
    by (simp add: doc0_def)
  from C6_table_wrap_idempotent [OF d] d t s show ?thesis by simp
qed

subsection \<open>C10: the two versions\<close>

named_theorems v2_same \<open>equalities between a function of version 2 and that of version 1\<close>

lemma scrollLock_lock_v2_same [v2_same]: "scrollLock_lock_v2 = scrollLock_lock"
  by ((intro ext)?, simp only: v2_same scrollLock_lock_v2_def scrollLock_lock_def)

lemma scrollLock_unlock_v2_same [v2_same]: "scrollLock_unlock_v2 = scrollLock_unlock"
  by ((intro ext)?, simp only: v2_same scrollLock_unlock_v2_def scrollLock_unlock_def)

lemma headerOffset_v2_same [v2_same]: "headerOffset_v2 = headerOffset"
  by ((intro ext)?, simp only: v2_same headerOffset_v2_def headerOffset_def)

lemma prefersReducedMotion_v2_same [v2_same]: "prefersReducedMotion_v2 = prefersReducedMotion"
  by ((intro ext)?, simp only: v2_same prefersReducedMotion_v2_def prefersReducedMotion_def)

lemma href_hash_v2_same [v2_same]: "href_hash_v2 = href_hash"
  by ((intro ext)?, simp only: v2_same href_hash_v2_def href_hash_def)

lemma push_hash_v2_same [v2_same]: "push_hash_v2 = push_hash"
  by ((intro ext)?, simp only: v2_same push_hash_v2_def push_hash_def)

lemma focus_target_v2_same [v2_same]: "focus_target_v2 = focus_target"
  by ((intro ext)?, simp only: v2_same focus_target_v2_def focus_target_def)

lemma anchor_click_v2_same [v2_same]: "anchor_click_v2 = anchor_click"
  by ((intro ext)?, simp only: v2_same anchor_click_v2_def anchor_click_def)

lemma fragment_v2_same [v2_same]: "fragment_v2 = fragment"
  by ((intro ext)?, simp only: v2_same fragment_v2_def fragment_def)

lemma map_push_v2_same [v2_same]: "map_push_v2 = map_push"
  by ((intro ext)?, simp only: v2_same map_push_v2_def map_push_def)

lemma build_map_v2_same [v2_same]: "build_map_v2 = build_map"
  by ((intro ext)?, simp only: v2_same build_map_v2_def build_map_def)

lemma initActiveNav_v2_same [v2_same]: "initActiveNav_v2 = initActiveNav"
  by ((intro ext)?, simp only: v2_same initActiveNav_v2_def initActiveNav_def)

lemma remove_active_v2_same [v2_same]: "remove_active_v2 = remove_active"
  by ((intro ext)?, simp only: v2_same remove_active_v2_def remove_active_def)

lemma add_active_v2_same [v2_same]: "add_active_v2 = add_active"
  by ((intro ext)?, simp only: v2_same add_active_v2_def add_active_def)

lemma clear_v2_same [v2_same]: "clear_v2 = clear"
  by ((intro ext)?, simp only: v2_same clear_v2_def clear_def)

lemma add_active_at_v2_same [v2_same]: "add_active_at_v2 = add_active_at"
  by ((intro ext)?, simp only: v2_same add_active_at_v2_def add_active_at_def)

lemma ratio_or_0_v2_same [v2_same]: "ratio_or_0_v2 = ratio_or_0"
  by ((intro ext)?, simp only: v2_same ratio_or_0_v2_def ratio_or_0_def)

lemma most_visible_v2_same [v2_same]: "most_visible_v2 = most_visible"
  by ((intro ext)?, simp only: v2_same most_visible_v2_def most_visible_def)

lemma active_callback_v2_same [v2_same]: "active_callback_v2 = active_callback"
  by (intro ext) (simp only: v2_same active_callback_v2_def active_callback_def Let_def)

lemma is_pre_code_v2_same [v2_same]: "is_pre_code_v2 = is_pre_code"
  by ((intro ext)?, simp only: v2_same is_pre_code_v2_def is_pre_code_def)

lemma insert_wrapper_v2_same [v2_same]: "insert_wrapper_v2 = insert_wrapper"
proof (intro ext)
  fix t w d
  show "insert_wrapper_v2 t w d = insert_wrapper t w d"
    by (induction d) simp
qed

lemma wrap_table_v2_same [v2_same]: "wrap_table_v2 = wrap_table"
  by ((intro ext)?, simp only: v2_same wrap_table_v2_def wrap_table_def)

lemma initTableWrap_v2_same [v2_same]: "initTableWrap_v2 = initTableWrap"
  by ((intro ext)?, simp only: v2_same initTableWrap_v2_def initTableWrap_def)

lemma h2_h3_id_v2_same [v2_same]: "h2_h3_id_v2 = h2_h3_id"
  by ((intro ext)?, simp only: v2_same h2_h3_id_v2_def h2_h3_id_def)

lemma copylink_btn_v2_same [v2_same]: "copylink_btn_v2 = copylink_btn"
  by ((intro ext)?, simp only: v2_same copylink_btn_v2_def copylink_btn_def)

lemma add_copylink_v2_same [v2_same]: "add_copylink_v2 = add_copylink"
  by ((intro ext)?, simp only: v2_same add_copylink_v2_def add_copylink_def)

lemma initCopyLinks_v2_same [v2_same]: "initCopyLinks_v2 = initCopyLinks"
  by ((intro ext)?, simp only: v2_same initCopyLinks_v2_def initCopyLinks_def)

lemma copylink_click_v2_same [v2_same]: "copylink_click_v2 = copylink_click"
  by ((intro ext)?, simp only: v2_same copylink_click_v2_def copylink_click_def)

lemma has_data_src_v2_same [v2_same]: "has_data_src_v2 = has_data_src"
  by ((intro ext)?, simp only: v2_same has_data_src_v2_def has_data_src_def)

lemma load_v2_same [v2_same]: "load_v2 = load"
  by ((intro ext)?, simp only: v2_same load_v2_def load_def)

lemma initLazyIframes_v2_same [v2_same]: "initLazyIframes_v2 = initLazyIframes"
  by ((intro ext)?, simp only: v2_same initLazyIframes_v2_def initLazyIframes_def)

lemma load_at_v2_same [v2_same]: "load_at_v2 = load_at"
  by ((intro ext)?, simp only: v2_same load_at_v2_def load_at_def)

lemma lazy_entry_v2_same [v2_same]: "lazy_entry_v2 = lazy_entry"
  by ((intro ext)?, simp only: v2_same lazy_entry_v2_def lazy_entry_def)

lemma lazy_callback_v2_same [v2_same]: "lazy_callback_v2 = lazy_callback"
  by ((intro ext)?, simp only: v2_same lazy_callback_v2_def lazy_callback_def)

lemma harden_rel_v2_same [v2_same]: "harden_rel_v2 = harden_rel"
  by ((intro ext)?, simp only: v2_same harden_rel_v2_def harden_rel_def)

lemma target_blank_v2_same [v2_same]: "target_blank_v2 = target_blank"
  by ((intro ext)?, simp only: v2_same target_blank_v2_def target_blank_def)

lemma harden_link_v2_same [v2_same]: "harden_link_v2 = harden_link"
  by ((intro ext)?, simp only: v2_same harden_link_v2_def harden_link_def)

lemma initExternalLinks_v2_same [v2_same]: "initExternalLinks_v2 = initExternalLinks"
  by ((intro ext)?, simp only: v2_same initExternalLinks_v2_def initExternalLinks_def)

lemma is_amazon_btn_v2_same [v2_same]: "is_amazon_btn_v2 = is_amazon_btn"
  by ((intro ext)?, simp only: v2_same is_amazon_btn_v2_def is_amazon_btn_def)

lemma has_btn_meta_v2_same [v2_same]: "has_btn_meta_v2 = has_btn_meta"
  by ((intro ext)?, simp only: v2_same has_btn_meta_v2_def has_btn_meta_def)

lemma chip_v2_same [v2_same]: "chip_v2 = chip"
  by ((intro ext)?, simp only: v2_same chip_v2_def chip_def)

lemma chip_button_v2_same [v2_same]: "chip_button_v2 = chip_button"
  by ((intro ext)?, simp only: v2_same chip_button_v2_def chip_button_def)

lemma initAmazonMetaChip_v2_same [v2_same]: "initAmazonMetaChip_v2 = initAmazonMetaChip"
  by ((intro ext)?, simp only: v2_same initAmazonMetaChip_v2_def initAmazonMetaChip_def)


text \<open>
  Claim C10. Outside the event wiring of the mobile menu the two versions are the same
  functions: the anchor click handler, the set-up and the callback of the active-section
  highlighter, the table-wrap pass, the copy-link pass and the click listener of its
  buttons, the set-up and the callback of the lazy iframe loader, the external-link pass,
  the promotional chip pass, both operations of the scroll lock, and the header offset.
\<close>

theorem C10_versions_agree:
  "anchor_click_v2 = anchor_click \<and>
   initActiveNav_v2 = initActiveNav \<and> active_callback_v2 = active_callback \<and>
   initTableWrap_v2 = initTableWrap \<and>
   initCopyLinks_v2 = initCopyLinks \<and> copylink_click_v2 = copylink_click \<and>
   initLazyIframes_v2 = initLazyIframes \<and> lazy_callback_v2 = lazy_callback \<and>
   initExternalLinks_v2 = initExternalLinks \<and>
   initAmazonMetaChip_v2 = initAmazonMetaChip \<and>
   scrollLock_lock_v2 = scrollLock_lock \<and> scrollLock_unlock_v2 = scrollLock_unlock \<and>
   headerOffset_v2 = headerOffset"
  by (simp only: v2_same)

theorem C10_versions_agree_witness:
  "anchor_click_v2 [hash_link ''#specs''] view1 = anchor_click [hash_link ''#specs''] view1 \<and>
   active_callback_v2 [section_entry True (3 / 4) ''intro''] nav_fresh
     = active_callback [section_entry True (3 / 4) ''intro''] nav_fresh \<and>
   initTableWrap_v2 doc0 = initTableWrap doc0 \<and>
   initCopyLinks_v2 True [heading0, heading1] = initCopyLinks True [heading0, heading1] \<and>
   initLazyIframes_v2 False [iframe0, iframe1] = initLazyIframes False [iframe0, iframe1] \<and>
   initExternalLinks_v2 [link_NoFollow] = initExternalLinks [link_NoFollow] \<and>
   initAmazonMetaChip_v2 doc1 = initAmazonMetaChip doc1 \<and>
   scrollLock_unlock_v2 (scrollLock_lock_v2 page0) = scrollLock_unlock (scrollLock_lock page0) \<and>
   headerOffset_v2 (Some (111 / 2)) = headerOffset (Some (111 / 2))"
  using C10_versions_agree by simp

text \<open>
  The wiring of the menu is where the versions part: with the flag set, the click
  listener of version 2 on the toggle does nothing, that of version 1 toggles the drawer.
\<close>

lemma menu_wiring_differs:
  "ignoreClick s \<Longrightarrow> btn_click_v2 s = s \<and> isOpen (btn_click_v1 s) = (\<not> isOpen s)"
  by (simp add: btn_click_v2_def btn_click_v1_def isOpen_toggle)

text \<open>The chip pass on a sample: the first button gets a chip, the second has one already.\<close>

lemma initAmazonMetaChip_doc1:
  "initAmazonMetaChip doc1 =
     Node 0 ''body'' []
       [Node 1 ''a'' [''btn'', ''btn--amazon'']
          [Node 2 ''#text Buy'' [] [],
           Node 6 ''span'' [''btn-meta''] [Node 7 ''#text Amazon.ca'' [] []]],
        Node 3 ''a'' [''btn'', ''btn--amazon''] [Node 4 ''span'' [''btn-meta''] []],
        Node 5 ''a'' [''btn''] []]"
  by code_simp

end
